theory Spec2Isabelle
  imports Main "HOL-Library.Sublist"
begin

section \<open>A shallow embedding of the chess rules engine\<close>

text \<open>
  The engine works on the data declared by its JSDoc typedefs: a \<open>Piece\<close> is a colour and
  a type letter, a \<open>Square\<close> is a pair of integer coordinates, a \<open>Move\<close> carries an origin,
  a destination, an optional promotion marker (only ever \<open>'Q'\<close>) and an optional captured
  piece, and a \<open>Position\<close> is a board of rows of cells, each cell a piece or \<open>null\<close>.

  Arrays are lists, \<open>null\<close> and an absent optional field are \<open>None\<close>. The embedding is
  exact on the engine's data model: boards of eight rows of eight cells, read and written at
  squares that lie on the board. Every coordinate the engine computes from an offset is
  guarded by \<open>inside\<close> before it indexes the board, and the loops run over the indices
  0 to 7. Only a move handed in by a caller of \<open>makeMove\<close> can name a square off the board;
  there JavaScript raises a TypeError (no such row) or grows the row (no such column), and
  the list operations below do neither, so the theorems about \<open>makeMove\<close> are stated for
  squares on the board.
\<close>

subsection \<open>Data model\<close>

datatype color = White | Black

datatype ptype = King | Queen | Rook | Bishop | Knight | Pawn

datatype piece = Piece (color: color) (ptype: ptype)

datatype square = Square (row: int) (col: int)

text \<open>The promotion marker of a move: the typedef admits the single value \<open>'Q'\<close>.\<close>

datatype promo = PromoQ

datatype move =
  Move (from_sq: square) (to_sq: square) (promotion: "promo option") (captured: "piece option")

datatype position = Position (board: "piece option list list")

definition wf_position :: "position \<Rightarrow> bool" where
  "wf_position position \<longleftrightarrow>
     length (board position) = 8 \<and> list_all (\<lambda>cells. length cells = 8) (board position)"

definition FILES :: "char list" where
  "FILES = [CHR ''a'', CHR ''b'', CHR ''c'', CHR ''d'', CHR ''e'', CHR ''f'', CHR ''g'', CHR ''h'']"

definition indices :: "int list" where
  "indices = [0, 1, 2, 3, 4, 5, 6, 7]"

text \<open>The squares in the order of the nested loops \<open>for r ... for c ...\<close>.\<close>

definition allSquares :: "square list" where
  "allSquares = concat (map (\<lambda>r. map (\<lambda>c. Square r c) indices) indices)"

subsection \<open>Initial position\<close>

definition backRank :: "color \<Rightarrow> piece option list" where
  "backRank color' =
     [Some (Piece color' Rook), Some (Piece color' Knight), Some (Piece color' Bishop),
      Some (Piece color' Queen), Some (Piece color' King), Some (Piece color' Bishop),
      Some (Piece color' Knight), Some (Piece color' Rook)]"

definition emptyRow :: "piece option list" where
  "emptyRow = [None, None, None, None, None, None, None, None]"

definition pawnRow :: "color \<Rightarrow> piece option list" where
  "pawnRow color' = map (\<lambda>_. Some (Piece color' Pawn)) indices"

definition createInitialPosition :: position where
  "createInitialPosition =
     Position [backRank Black, pawnRow Black, emptyRow, emptyRow, emptyRow, emptyRow,
               pawnRow White, backRank White]"

definition getPieceColor :: "piece option \<Rightarrow> color option" where
  "getPieceColor p = (case p of None \<Rightarrow> None | Some q \<Rightarrow> Some (color q))"

subsection \<open>Geometry and addressing\<close>

definition digitChar :: "nat \<Rightarrow> char" where
  "digitChar d = char_of (48 + d)"

text \<open>The decimal rendering of a number in a template literal.\<close>

function showNat :: "nat \<Rightarrow> string" where
  "showNat n = (if n < 10 then [digitChar n] else showNat (n div 10) @ [digitChar (n mod 10)])"
  by pat_completeness auto
termination
  by (relation "measure id") auto

definition showInt :: "int \<Rightarrow> string" where
  "showInt i = (if i < 0 then CHR ''-'' # showNat (nat (- i)) else showNat (nat i))"

text \<open>\<open>FILES[c]\<close> in a template literal: the letter, or the text of \<open>undefined\<close>.\<close>

definition fileText :: "int \<Rightarrow> string" where
  "fileText c' = (if 0 \<le> c' \<and> c' < int (length FILES) then [FILES ! nat c'] else ''undefined'')"

definition squareToAlgebraic :: "square \<Rightarrow> string" where
  "squareToAlgebraic sq = fileText (col sq) @ showInt (8 - row sq)"

text \<open>\<open>FILES.indexOf(file)\<close>: the first index holding the character, or -1.\<close>

fun indexOfFrom :: "char list \<Rightarrow> char \<Rightarrow> int \<Rightarrow> int" where
  "indexOfFrom [] x i = -1"
| "indexOfFrom (y # ys) x i = (if y = x then i else indexOfFrom ys x (i + 1))"

text \<open>
  \<open>Number(ch)\<close> of a one-character string: a decimal digit is its value, white space is 0,
  anything else is NaN, written \<open>None\<close>. (Strings are modelled as byte strings.)
\<close>

definition numberOfChar :: "char \<Rightarrow> int option" where
  "numberOfChar ch =
     (let n = of_char ch :: nat in
      if 48 \<le> n \<and> n \<le> 57 then Some (int n - 48)
      else if n = 32 \<or> (9 \<le> n \<and> n \<le> 13) then Some 0
      else None)"

text \<open>
  \<open>parseSquare\<close> reads the first two characters. A missing first character is
  \<open>undefined\<close>, which \<open>indexOf\<close> does not find; a missing or non-numeric second character
  makes the row NaN, which is no square: the result is \<open>None\<close> then.
\<close>

definition parseSquare :: "string \<Rightarrow> square option" where
  "parseSquare algebraic =
     (let c' = (case algebraic of [] \<Rightarrow> -1 | file # _ \<Rightarrow> indexOfFrom FILES file 0);
          rank = (case algebraic of _ # ch # _ \<Rightarrow> numberOfChar ch | _ \<Rightarrow> None)
      in case rank of None \<Rightarrow> None | Some k \<Rightarrow> Some (Square (8 - k) c'))"

definition inside :: "int \<Rightarrow> int \<Rightarrow> bool" where
  "inside r' c' \<longleftrightarrow> r' \<ge> 0 \<and> r' < 8 \<and> c' \<ge> 0 \<and> c' < 8"

text \<open>\<open>position.board[r][c]\<close>, for a square on the board.\<close>

definition boardAt :: "position \<Rightarrow> int \<Rightarrow> int \<Rightarrow> piece option" where
  "boardAt position r' c' = (if inside r' c' then board position ! nat r' ! nat c' else None)"

text \<open>\<open>position.board[r][c] = v\<close>, for a square on the board.\<close>

definition boardSet :: "position \<Rightarrow> int \<Rightarrow> int \<Rightarrow> piece option \<Rightarrow> position" where
  "boardSet position r' c' v =
     (if inside r' c'
      then Position ((board position)[nat r' := (board position ! nat r')[nat c' := v]])
      else position)"

definition clonePosition :: "position \<Rightarrow> position" where
  "clonePosition position =
     Position (map (\<lambda>cells. map (\<lambda>p. case p of Some q \<Rightarrow> Some (Piece (color q) (ptype q))
                                            | None \<Rightarrow> None) cells)
                   (board position))"

definition findKing :: "position \<Rightarrow> color \<Rightarrow> square option" where
  "findKing position color' =
     find (\<lambda>sq. case boardAt position (row sq) (col sq) of
                  None \<Rightarrow> False
                | Some p \<Rightarrow> color p = color' \<and> ptype p = King) allSquares"

definition opposite :: "color \<Rightarrow> color" where
  "opposite color' = (if color' = White then Black else White)"

definition isEmpty :: "position \<Rightarrow> int \<Rightarrow> int \<Rightarrow> bool" where
  "isEmpty position r' c' \<longleftrightarrow> boardAt position r' c' = None"

definition isEnemy :: "position \<Rightarrow> int \<Rightarrow> int \<Rightarrow> color \<Rightarrow> bool" where
  "isEnemy position r' c' color' =
     (case boardAt position r' c' of None \<Rightarrow> False | Some p \<Rightarrow> color p \<noteq> color')"

subsection \<open>Pseudo-legal move generation\<close>

definition pushIfValid ::
  "move list \<Rightarrow> position \<Rightarrow> square \<Rightarrow> int \<Rightarrow> int \<Rightarrow> color \<Rightarrow> move list" where
  "pushIfValid moves position from r' c' color' =
     (if \<not> inside r' c' then moves
      else case boardAt position r' c' of
             None \<Rightarrow> moves @ [Move from (Square r' c') None None]
           | Some target \<Rightarrow>
               if color target \<noteq> color' then moves @ [Move from (Square r' c') None (Some target)]
               else moves)"

text \<open>
  The \<open>while (inside(r, c))\<close> loop of \<open>genSliding\<close> for one direction. With the offset
  (0, 0) on an empty square the loop never ends, so the loop is a partial function and
  \<open>None\<close> stands for a run that does not return.
\<close>

partial_function (option) slideLoop ::
  "position \<Rightarrow> square \<Rightarrow> color \<Rightarrow> int \<Rightarrow> int \<Rightarrow> int \<Rightarrow> int \<Rightarrow> move list \<Rightarrow> move list option"
where
  "slideLoop position from color' dr dc r' c' moves =
     (if inside r' c' then
        (case boardAt position r' c' of
           None \<Rightarrow>
             slideLoop position from color' dr dc (r' + dr) (c' + dc)
               (moves @ [Move from (Square r' c') None None])
         | Some target \<Rightarrow>
             Some (if color target \<noteq> color'
                   then moves @ [Move from (Square r' c') None (Some target)]
                   else moves))
      else Some moves)"

declare slideLoop.simps [code]

fun slideAll ::
  "position \<Rightarrow> square \<Rightarrow> color \<Rightarrow> (int \<times> int) list \<Rightarrow> move list \<Rightarrow> move list option" where
  "slideAll position from color' [] moves = Some moves"
| "slideAll position from color' ((dr, dc) # deltas) moves =
     (case slideLoop position from color' dr dc (row from + dr) (col from + dc) moves of
        None \<Rightarrow> None
      | Some moves' \<Rightarrow> slideAll position from color' deltas moves')"

definition genSliding ::
  "position \<Rightarrow> square \<Rightarrow> color \<Rightarrow> (int \<times> int) list \<Rightarrow> move list option" where
  "genSliding position from color' deltas = slideAll position from color' deltas []"

definition knightDeltas :: "(int \<times> int) list" where
  "knightDeltas = [(-2, -1), (-2, 1), (-1, -2), (-1, 2), (1, -2), (1, 2), (2, -1), (2, 1)]"

definition bishopDeltas :: "(int \<times> int) list" where
  "bishopDeltas = [(-1, -1), (-1, 1), (1, -1), (1, 1)]"

definition rookDeltas :: "(int \<times> int) list" where
  "rookDeltas = [(-1, 0), (1, 0), (0, -1), (0, 1)]"

definition queenDeltas :: "(int \<times> int) list" where
  "queenDeltas = [(-1, -1), (-1, 1), (1, -1), (1, 1), (-1, 0), (1, 0), (0, -1), (0, 1)]"

definition kingDeltas :: "(int \<times> int) list" where
  "kingDeltas = [(-1, -1), (-1, 0), (-1, 1), (0, -1), (0, 1), (1, -1), (1, 0), (1, 1)]"

definition pawnCapture :: "position \<Rightarrow> square \<Rightarrow> color \<Rightarrow> int \<Rightarrow> int \<Rightarrow> move list \<Rightarrow> move list" where
  "pawnCapture position from color' r1 dc moves =
     (let rc = col from + dc in
      if \<not> inside r1 rc then moves
      else if isEnemy position r1 rc color' then
        (let captured' = boardAt position r1 rc in
         if r1 = 0 \<or> r1 = 7
         then moves @ [Move from (Square r1 rc) (Some PromoQ) captured']
         else moves @ [Move from (Square r1 rc) None captured'])
      else moves)"

definition pawnMoves :: "position \<Rightarrow> square \<Rightarrow> color \<Rightarrow> move list" where
  "pawnMoves position from color' =
     (let dir = (if color' = White then -1 else 1);
          startRow = (if color' = White then 6 else 1);
          r1 = row from + dir;
          moves =
            (if inside r1 (col from) \<and> isEmpty position r1 (col from) then
               (let moves1 =
                      (if r1 = 0 \<or> r1 = 7
                       then [Move from (Square r1 (col from)) (Some PromoQ) None]
                       else [Move from (Square r1 (col from)) None None]);
                    r2 = row from + 2 * dir
                in if row from = startRow \<and> inside r2 (col from) \<and> isEmpty position r2 (col from)
                   then moves1 @ [Move from (Square r2 (col from)) None None]
                   else moves1)
             else [])
      in fold (pawnCapture position from color' r1) [-1, 1] moves)"

definition stepMoves :: "position \<Rightarrow> square \<Rightarrow> color \<Rightarrow> (int \<times> int) list \<Rightarrow> move list" where
  "stepMoves position from color' deltas =
     fold (\<lambda>(dr, dc) moves. pushIfValid moves position from (row from + dr) (col from + dc) color')
          deltas []"

definition pseudoLegalMovesForSquare :: "position \<Rightarrow> square \<Rightarrow> move list option" where
  "pseudoLegalMovesForSquare position from =
     (case boardAt position (row from) (col from) of
        None \<Rightarrow> Some []
      | Some piece' \<Rightarrow>
          (case ptype piece' of
             Pawn \<Rightarrow> Some (pawnMoves position from (color piece'))
           | Knight \<Rightarrow> Some (stepMoves position from (color piece') knightDeltas)
           | Bishop \<Rightarrow> genSliding position from (color piece') bishopDeltas
           | Rook \<Rightarrow> genSliding position from (color piece') rookDeltas
           | Queen \<Rightarrow> genSliding position from (color piece') queenDeltas
           | King \<Rightarrow> Some (stepMoves position from (color piece') kingDeltas)))"

subsection \<open>Attack and check oracle\<close>

fun attackedLoop :: "position \<Rightarrow> square \<Rightarrow> color \<Rightarrow> square list \<Rightarrow> bool option" where
  "attackedLoop position sq byColor [] = Some False"
| "attackedLoop position sq byColor (from # rest) =
     (case boardAt position (row from) (col from) of
        None \<Rightarrow> attackedLoop position sq byColor rest
      | Some p \<Rightarrow>
          if color p \<noteq> byColor then attackedLoop position sq byColor rest
          else if ptype p = Pawn then
            (let dir = (if byColor = White then -1 else 1) in
             if list_ex (\<lambda>dc. row from + dir = row sq \<and> col from + dc = col sq) [-1, 1]
             then Some True
             else attackedLoop position sq byColor rest)
          else
            (case pseudoLegalMovesForSquare position from of
               None \<Rightarrow> None
             | Some pseudo \<Rightarrow>
                 if list_ex (\<lambda>m. row (to_sq m) = row sq \<and> col (to_sq m) = col sq) pseudo
                 then Some True
                 else attackedLoop position sq byColor rest))"

definition isSquareAttacked :: "position \<Rightarrow> square \<Rightarrow> color \<Rightarrow> bool option" where
  "isSquareAttacked position sq byColor = attackedLoop position sq byColor allSquares"

definition inCheck :: "position \<Rightarrow> color \<Rightarrow> bool option" where
  "inCheck position color' =
     (case findKing position color' of
        None \<Rightarrow> Some False
      | Some kingSq \<Rightarrow> isSquareAttacked position kingSq (opposite color'))"

subsection \<open>Applying a move, notation, legal moves\<close>

definition promoType :: "promo \<Rightarrow> ptype" where
  "promoType m = (case m of PromoQ \<Rightarrow> Queen)"

definition applyMove :: "position \<Rightarrow> move \<Rightarrow> position" where
  "applyMove position mv =
     (let next0 = clonePosition position;
          piece' = boardAt next0 (row (from_sq mv)) (col (from_sq mv));
          next1 = boardSet next0 (row (from_sq mv)) (col (from_sq mv)) None;
          placed =
            (case piece' of
               None \<Rightarrow> piece'
             | Some p \<Rightarrow>
                 (case promotion mv of
                    None \<Rightarrow> piece'
                  | Some m \<Rightarrow> if ptype p = Pawn then Some (Piece (color p) (promoType m))
                              else piece'))
      in boardSet next1 (row (to_sq mv)) (col (to_sq mv)) placed)"

definition wouldLeaveKingInCheck :: "position \<Rightarrow> move \<Rightarrow> color \<Rightarrow> bool option" where
  "wouldLeaveKingInCheck position mv moverColor = inCheck (applyMove position mv) moverColor"

definition typeLetter :: "ptype \<Rightarrow> string" where
  "typeLetter t =
     (case t of King \<Rightarrow> ''K'' | Queen \<Rightarrow> ''Q'' | Rook \<Rightarrow> ''R'' | Bishop \<Rightarrow> ''B''
              | Knight \<Rightarrow> ''N'' | Pawn \<Rightarrow> ''P'')"

definition pieceLetter :: "ptype \<Rightarrow> string" where
  "pieceLetter pieceType = (if pieceType = Pawn then [] else typeLetter pieceType)"

definition moveToSANLike :: "position \<Rightarrow> move \<Rightarrow> string" where
  "moveToSANLike position mv =
     (case boardAt position (row (from_sq mv)) (col (from_sq mv)) of
        None \<Rightarrow> squareToAlgebraic (from_sq mv) @ ''-'' @ squareToAlgebraic (to_sq mv)
      | Some piece' \<Rightarrow>
          (let captureMark = (case captured mv of Some _ \<Rightarrow> ''x'' | None \<Rightarrow> ''-'');
               promo' = (case promotion mv of Some m \<Rightarrow> ''='' @ typeLetter (promoType m)
                                            | None \<Rightarrow> [])
           in pieceLetter (ptype piece') @ squareToAlgebraic (from_sq mv) @ captureMark
              @ squareToAlgebraic (to_sq mv) @ promo'))"

definition makeMove :: "position \<Rightarrow> move \<Rightarrow> position \<times> string" where
  "makeMove position mv = (applyMove position mv, moveToSANLike position mv)"

text \<open>The inner loop \<open>for (const mv of pseudo)\<close> of \<open>generateLegalMoves\<close>.\<close>

fun keepSafe :: "position \<Rightarrow> color \<Rightarrow> move list \<Rightarrow> move list \<Rightarrow> move list option" where
  "keepSafe position turn [] moves = Some moves"
| "keepSafe position turn (mv # pseudo) moves =
     (case wouldLeaveKingInCheck position mv turn of
        None \<Rightarrow> None
      | Some chk \<Rightarrow> keepSafe position turn pseudo (if \<not> chk then moves @ [mv] else moves))"

text \<open>The outer loops over the squares.\<close>

fun legalLoop :: "position \<Rightarrow> color \<Rightarrow> square list \<Rightarrow> move list \<Rightarrow> move list option" where
  "legalLoop position turn [] moves = Some moves"
| "legalLoop position turn (from # rest) moves =
     (case boardAt position (row from) (col from) of
        None \<Rightarrow> legalLoop position turn rest moves
      | Some p \<Rightarrow>
          if color p \<noteq> turn then legalLoop position turn rest moves
          else
            (case pseudoLegalMovesForSquare position from of
               None \<Rightarrow> None
             | Some pseudo \<Rightarrow>
                 (case keepSafe position turn pseudo moves of
                    None \<Rightarrow> None
                  | Some moves' \<Rightarrow> legalLoop position turn rest moves')))"

definition generateLegalMoves :: "position \<Rightarrow> color \<Rightarrow> move list option" where
  "generateLegalMoves position turn = legalLoop position turn allSquares []"

subsection \<open>Positions used in the scenarios\<close>

text \<open>The position after 1.f3 e5 2.g4 Qh4, played from the initial position.\<close>

definition foolsMate :: position where
  "foolsMate = foldl applyMove createInitialPosition
     [Move (Square 6 5) (Square 5 5) None None, Move (Square 1 4) (Square 3 4) None None,
      Move (Square 6 6) (Square 4 6) None None, Move (Square 0 3) (Square 4 7) None None]"

text \<open>Black king on a8, white king on a6, white pawn on b6.\<close>

definition kingPawnPosition :: position where
  "kingPawnPosition =
     Position [[Some (Piece Black King), None, None, None, None, None, None, None],
               emptyRow,
               [Some (Piece White King), Some (Piece White Pawn), None, None, None, None, None, None],
               emptyRow, emptyRow, emptyRow, emptyRow, emptyRow]"

text \<open>A white king alone on e1.\<close>

definition loneKingPosition :: position where
  "loneKingPosition =
     Position [emptyRow, emptyRow, emptyRow, emptyRow, emptyRow, emptyRow, emptyRow,
               [None, None, None, None, Some (Piece White King), None, None, None]]"

text \<open>
  The twenty opening moves in the order the loops produce them: for each file the single
  and the double pawn push, then the two moves of each knight.
\<close>

definition initialMoves :: "move list" where
  "initialMoves =
     concat (map (\<lambda>c'. [Move (Square 6 c') (Square 5 c') None None,
                         Move (Square 6 c') (Square 4 c') None None]) indices)
     @ [Move (Square 7 1) (Square 5 0) None None, Move (Square 7 1) (Square 5 2) None None,
        Move (Square 7 6) (Square 5 5) None None, Move (Square 7 6) (Square 5 7) None None]"

subsection \<open>Auxiliary functions for the proofs\<close>

text \<open>
  The moves of one ray computed with a bound on the number of steps; eight steps always
  suffice on the board (\<open>slideLoop_total\<close> below).
\<close>

fun rayN :: "nat \<Rightarrow> position \<Rightarrow> square \<Rightarrow> color \<Rightarrow> int \<Rightarrow> int \<Rightarrow> int \<Rightarrow> int \<Rightarrow> move list" where
  "rayN 0 position from color' dr dc r' c' = []"
| "rayN (Suc n) position from color' dr dc r' c' =
     (if inside r' c' then
        (case boardAt position r' c' of
           None \<Rightarrow> Move from (Square r' c') None None
                   # rayN n position from color' dr dc (r' + dr) (c' + dc)
         | Some target \<Rightarrow>
             (if color target \<noteq> color' then [Move from (Square r' c') None (Some target)]
              else []))
      else [])"

text \<open>An upper bound on the number of squares of the board left in a direction.\<close>

definition stepsLeft :: "int \<Rightarrow> int \<Rightarrow> int \<Rightarrow> int \<Rightarrow> nat" where
  "stepsLeft dr dc r' c' =
     nat (if dr > 0 then 8 - r' else if dr < 0 then r' + 1 else if dc > 0 then 8 - c' else c' + 1)"

definition rays :: "position \<Rightarrow> square \<Rightarrow> color \<Rightarrow> (int \<times> int) list \<Rightarrow> move list" where
  "rays position from color' deltas =
     concat (map (\<lambda>(dr, dc). rayN 8 position from color' dr dc (row from + dr) (col from + dc))
              deltas)"

text \<open>A move that starts on the given square and ends on the board.\<close>

definition fromTo :: "square \<Rightarrow> move \<Rightarrow> bool" where
  "fromTo s m \<longleftrightarrow> from_sq m = s \<and> inside (row (to_sq m)) (col (to_sq m))"

text \<open>A white pawn on c7 that can move to c8 or capture a rook on d8.\<close>

definition promotionPosition :: position where
  "promotionPosition =
     Position [[None, None, None, Some (Piece Black Rook), None, None, None, Some (Piece Black King)],
               [None, None, Some (Piece White Pawn), None, None, None, None, None],
               emptyRow, emptyRow, emptyRow, emptyRow, emptyRow,
               [None, None, None, None, Some (Piece White King), None, None, None]]"

subsection \<open>Rays of the sliding pieces\<close>

text \<open>The square k steps away from a square in a direction.\<close>

definition raySquare :: "square \<Rightarrow> int \<Rightarrow> int \<Rightarrow> int \<Rightarrow> square" where
  "raySquare s dr dc k = Square (row s + k * dr) (col s + k * dc)"

text \<open>The cell of a square.\<close>

definition squareAt :: "position \<Rightarrow> square \<Rightarrow> piece option" where
  "squareAt position sq = boardAt position (row sq) (col sq)"

text \<open>The squares 1 to k - 1 of a ray are on the board and empty.\<close>

definition clearBefore :: "position \<Rightarrow> square \<Rightarrow> int \<Rightarrow> int \<Rightarrow> int \<Rightarrow> bool" where
  "clearBefore position s dr dc k =
     list_all (\<lambda>i. inside (row (raySquare s dr dc i)) (col (raySquare s dr dc i))
                  \<and> squareAt position (raySquare s dr dc i) = None) [1..k - 1]"

text \<open>The directions \<open>pseudoLegalMovesForSquare\<close> hands to \<open>genSliding\<close> for a piece type.\<close>

definition slidingDeltas :: "ptype \<Rightarrow> (int \<times> int) list" where
  "slidingDeltas t =
     (case t of Bishop \<Rightarrow> bishopDeltas | Rook \<Rightarrow> rookDeltas | Queen \<Rightarrow> queenDeltas | _ \<Rightarrow> [])"

text \<open>The move the loop emits on the j-th square counted from the starting square.\<close>

definition hit :: "position \<Rightarrow> square \<Rightarrow> color \<Rightarrow> int \<Rightarrow> int \<Rightarrow> int \<Rightarrow> int \<Rightarrow> nat \<Rightarrow> move \<Rightarrow> bool" where
  "hit position s color' dr dc r' c' j m \<longleftrightarrow>
     (\<forall>i<j. inside (r' + int i * dr) (c' + int i * dc)
            \<and> boardAt position (r' + int i * dr) (c' + int i * dc) = None)
     \<and> inside (r' + int j * dr) (c' + int j * dc)
     \<and> (case boardAt position (r' + int j * dr) (c' + int j * dc) of
           None \<Rightarrow> m = Move s (Square (r' + int j * dr) (c' + int j * dc)) None None
         | Some t \<Rightarrow> color t \<noteq> color'
                     \<and> m = Move s (Square (r' + int j * dr) (c' + int j * dc)) None (Some t))"

text \<open>
  The move of a ray on its k-th square: the squares before it are on the board and empty,
  the square is on the board, and it is empty (a quiet move) or holds an enemy (a capture).
\<close>

definition onRay :: "position \<Rightarrow> square \<Rightarrow> color \<Rightarrow> int \<Rightarrow> int \<Rightarrow> int \<Rightarrow> move \<Rightarrow> bool" where
  "onRay position s color' dr dc k m \<longleftrightarrow>
     clearBefore position s dr dc k
     \<and> inside (row (raySquare s dr dc k)) (col (raySquare s dr dc k))
     \<and> (case squareAt position (raySquare s dr dc k) of
           None \<Rightarrow> m = Move s (raySquare s dr dc k) None None
         | Some t \<Rightarrow> color t \<noteq> color' \<and> m = Move s (raySquare s dr dc k) None (Some t))"

subsection \<open>The engine on a store of objects\<close>

text \<open>
  In JavaScript a position is a reference to an object whose board is an array of references
  to row arrays, and \<open>applyMove\<close> assigns to cells of rows. Whether the caller's
  position survives a call depends on which row objects are shared, so the mutating
  functions are modelled a second time on an explicit store: a list of objects, the address
  of an object being its index. Pieces are kept as values inside the rows, since no
  function of the engine assigns to a field of a piece.
\<close>

type_synonym addr = nat

datatype obj = RowObj "piece option list" | BoardObj "addr list" | PositionObj addr

type_synonym store = "obj list"

text \<open>A new object gets the next free address.\<close>

definition allocate :: "store \<Rightarrow> obj \<Rightarrow> store \<times> addr" where
  "allocate st ob = (st @ [ob], length st)"

text \<open>\<open>position.board\<close>: the row references of a position object.\<close>

definition boardOf :: "store \<Rightarrow> addr \<Rightarrow> addr list" where
  "boardOf st p =
     (case st ! p of
        PositionObj b \<Rightarrow> (case st ! b of BoardObj rs \<Rightarrow> rs | _ \<Rightarrow> [])
      | _ \<Rightarrow> [])"

text \<open>The cells of a row object.\<close>

definition cellsOf :: "store \<Rightarrow> addr \<Rightarrow> piece option list" where
  "cellsOf st a = (case st ! a of RowObj cs \<Rightarrow> cs | _ \<Rightarrow> [])"

text \<open>
  A reference to a position of the data model: a position object whose board is an array of
  eight references to rows of eight cells. The rows need not be distinct objects.
\<close>

definition wf_ref :: "store \<Rightarrow> addr \<Rightarrow> bool" where
  "wf_ref st p \<longleftrightarrow>
     p < length st \<and>
     (case st ! p of
        PositionObj b \<Rightarrow>
          b < length st \<and>
          (case st ! b of
             BoardObj rs \<Rightarrow>
               length rs = 8 \<and>
               list_all (\<lambda>a. a < length st \<and>
                              (case st ! a of RowObj cs \<Rightarrow> length cs = 8 | _ \<Rightarrow> False)) rs
           | _ \<Rightarrow> False)
      | _ \<Rightarrow> False)"

text \<open>The board a position reference denotes in a store.\<close>

definition positionOf :: "store \<Rightarrow> addr \<Rightarrow> position" where
  "positionOf st p = Position (map (cellsOf st) (boardOf st p))"

text \<open>\<open>position.board[r][c]\<close> and \<open>position.board[r][c] = v\<close> through a reference.\<close>

definition loadCell :: "store \<Rightarrow> addr \<Rightarrow> int \<Rightarrow> int \<Rightarrow> piece option" where
  "loadCell st p r' c' =
     (if inside r' c' then cellsOf st (boardOf st p ! nat r') ! nat c' else None)"

definition storeCell :: "store \<Rightarrow> addr \<Rightarrow> int \<Rightarrow> int \<Rightarrow> piece option \<Rightarrow> store" where
  "storeCell st p r' c' v =
     (if inside r' c'
      then (let a = boardOf st p ! nat r' in st[a := RowObj ((cellsOf st a)[nat c' := v])])
      else st)"

text \<open>\<open>p ? { ...p } : null\<close>.\<close>

definition copyCell :: "piece option \<Rightarrow> piece option" where
  "copyCell p = (case p of Some q \<Rightarrow> Some (Piece (color q) (ptype q)) | None \<Rightarrow> None)"

text \<open>
  \<open>position.board.map((row) => row.map(...))\<close>: every row is copied into a new row
  object, then the array of the new rows and the new position object are created.
\<close>

fun cloneRows :: "store \<Rightarrow> addr list \<Rightarrow> addr list \<Rightarrow> store \<times> addr list" where
  "cloneRows st [] acc = (st, acc)"
| "cloneRows st (a # as) acc =
     (let (st', a') = allocate st (RowObj (map copyCell (cellsOf st a)))
      in cloneRows st' as (acc @ [a']))"

definition clonePositionS :: "store \<Rightarrow> addr \<Rightarrow> store \<times> addr" where
  "clonePositionS st p =
     (let (st1, rs) = cloneRows st (boardOf st p) [];
          (st2, b) = allocate st1 (BoardObj rs)
      in allocate st2 (PositionObj b))"

definition applyMoveS :: "store \<Rightarrow> addr \<Rightarrow> move \<Rightarrow> store \<times> addr" where
  "applyMoveS st p mv =
     (let (st0, next) = clonePositionS st p;
          piece' = loadCell st0 next (row (from_sq mv)) (col (from_sq mv));
          st1 = storeCell st0 next (row (from_sq mv)) (col (from_sq mv)) None;
          placed =
            (case piece' of
               None \<Rightarrow> piece'
             | Some q \<Rightarrow>
                 (case promotion mv of
                    None \<Rightarrow> piece'
                  | Some m \<Rightarrow> if ptype q = Pawn then Some (Piece (color q) (promoType m))
                              else piece'))
      in (storeCell st1 next (row (to_sq mv)) (col (to_sq mv)) placed, next))"

definition makeMoveS :: "store \<Rightarrow> addr \<Rightarrow> move \<Rightarrow> store \<times> addr \<times> string" where
  "makeMoveS st p mv =
     (let (st', nextPosition) = applyMoveS st p mv
      in (st', nextPosition, moveToSANLike (positionOf st' p) mv))"

text \<open>
  \<open>inCheck\<close>, \<open>pseudoLegalMovesForSquare\<close> and \<open>moveToSANLike\<close> only read
  the board: they are the functions above, applied to the board the reference denotes in the
  current store.
\<close>

definition wouldLeaveKingInCheckS ::
  "store \<Rightarrow> addr \<Rightarrow> move \<Rightarrow> color \<Rightarrow> (store \<times> bool) option" where
  "wouldLeaveKingInCheckS st p mv moverColor =
     (let (st', next) = applyMoveS st p mv
      in case inCheck (positionOf st' next) moverColor of
           None \<Rightarrow> None
         | Some chk \<Rightarrow> Some (st', chk))"

fun keepSafeS ::
  "store \<Rightarrow> addr \<Rightarrow> color \<Rightarrow> move list \<Rightarrow> move list \<Rightarrow> (store \<times> move list) option" where
  "keepSafeS st p turn [] moves = Some (st, moves)"
| "keepSafeS st p turn (mv # pseudo) moves =
     (case wouldLeaveKingInCheckS st p mv turn of
        None \<Rightarrow> None
      | Some (st', chk) \<Rightarrow>
          keepSafeS st' p turn pseudo (if \<not> chk then moves @ [mv] else moves))"

fun legalLoopS ::
  "store \<Rightarrow> addr \<Rightarrow> color \<Rightarrow> square list \<Rightarrow> move list \<Rightarrow> (store \<times> move list) option" where
  "legalLoopS st p turn [] moves = Some (st, moves)"
| "legalLoopS st p turn (from # rest) moves =
     (case boardAt (positionOf st p) (row from) (col from) of
        None \<Rightarrow> legalLoopS st p turn rest moves
      | Some q \<Rightarrow>
          if color q \<noteq> turn then legalLoopS st p turn rest moves
          else
            (case pseudoLegalMovesForSquare (positionOf st p) from of
               None \<Rightarrow> None
             | Some pseudo \<Rightarrow>
                 (case keepSafeS st p turn pseudo moves of
                    None \<Rightarrow> None
                  | Some (st', moves') \<Rightarrow> legalLoopS st' p turn rest moves')))"

definition generateLegalMovesS ::
  "store \<Rightarrow> addr \<Rightarrow> color \<Rightarrow> (store \<times> move list) option" where
  "generateLegalMovesS st p turn = legalLoopS st p turn allSquares []"

text \<open>A store that holds the initial position: eight rows, the board, the position object.\<close>

definition initialStore :: store where
  "initialStore =
     map RowObj (board createInitialPosition) @ [BoardObj [0, 1, 2, 3, 4, 5, 6, 7], PositionObj 8]"

section \<open>Properties\<close>

subsection \<open>The squares of the board\<close>

lemma inside_allSquares: "inside r' c' \<Longrightarrow> Square r' c' \<in> set allSquares"
  unfolding inside_def allSquares_def indices_def by simp arith

lemma allSquares_inside: "sq \<in> set allSquares \<Longrightarrow> inside (row sq) (col sq)"
  unfolding inside_def allSquares_def indices_def by auto

subsection \<open>Algebraic notation of squares\<close>

lemma roundtrip_all:
  "list_all (\<lambda>sq. parseSquare (squareToAlgebraic sq) = Some sq) allSquares"
  by code_simp

text \<open>
  Claim C6. For every square whose row and column both lie in 0..7, parsing the algebraic
  name of the square gives the square back.
\<close>

theorem parseSquare_squareToAlgebraic:
  "inside r' c' \<Longrightarrow> parseSquare (squareToAlgebraic (Square r' c')) = Some (Square r' c')"
  using roundtrip_all inside_allSquares [of r' c'] by (simp add: list_all_iff)

theorem parseSquare_squareToAlgebraic_witness:
  "inside 4 4 \<and> squareToAlgebraic (Square 4 4) = ''e4''
   \<and> parseSquare (squareToAlgebraic (Square 4 4)) = Some (Square 4 4)"
proof -
  have h: "inside 4 4" by (simp add: inside_def)
  have "squareToAlgebraic (Square 4 4) = ''e4''" by code_simp
  with h parseSquare_squareToAlgebraic [OF h] show ?thesis by simp
qed

subsection \<open>Scenarios\<close>

text \<open>
  Claim C3. From the initial position White has exactly twenty legal moves: the eight
  single pawn pushes, the eight double pawn pushes and four knight moves; none of them
  carries a captured piece.
\<close>

theorem initial_position_moves:
  "generateLegalMoves createInitialPosition White = Some initialMoves
   \<and> length initialMoves = 20
   \<and> filter (\<lambda>m. captured m \<noteq> None) initialMoves = []
   \<and> length (filter (\<lambda>m. boardAt createInitialPosition (row (from_sq m)) (col (from_sq m))
                            = Some (Piece White Pawn)
                          \<and> row (to_sq m) = row (from_sq m) - 1
                          \<and> col (to_sq m) = col (from_sq m)) initialMoves) = 8
   \<and> length (filter (\<lambda>m. boardAt createInitialPosition (row (from_sq m)) (col (from_sq m))
                            = Some (Piece White Pawn)
                          \<and> row (to_sq m) = row (from_sq m) - 2
                          \<and> col (to_sq m) = col (from_sq m)) initialMoves) = 8
   \<and> length (filter (\<lambda>m. boardAt createInitialPosition (row (from_sq m)) (col (from_sq m))
                            = Some (Piece White Knight)) initialMoves) = 4"
  by code_simp

text \<open>
  Claim C2, as stated: with the black king on a8, the white king on a6 and a white pawn on
  b6, Black to move has no legal move and is not in check. The statement fails: b8 is
  attacked neither by the king on a6 nor by the pawn on b6, so the black king may go there.
\<close>

theorem kingPawn_not_stalemate:
  "\<not> (generateLegalMoves kingPawnPosition Black = Some []
      \<and> inCheck kingPawnPosition Black = Some False)"
  by code_simp

text \<open>
  Claim C2, amended: in that position Black is not in check and has exactly one legal move,
  the king move from a8 to b8.
\<close>

theorem kingPawn_single_move:
  "generateLegalMoves kingPawnPosition Black = Some [Move (Square 0 0) (Square 0 1) None None]
   \<and> inCheck kingPawnPosition Black = Some False"
  by code_simp

text \<open>
  Claim C4. In the position after 1.f3 e5 2.g4 Qh4, with the white king on e1 and the black
  queen on h4, White has no legal move and is in check.
\<close>

theorem foolsMate_checkmate:
  "boardAt foolsMate 7 4 = Some (Piece White King)
   \<and> boardAt foolsMate 4 7 = Some (Piece Black Queen)
   \<and> generateLegalMoves foolsMate White = Some []
   \<and> inCheck foolsMate White = Some True"
  by code_simp

subsection \<open>A missing king\<close>

lemma findKing_None:
  assumes "\<forall>r' c'. inside r' c' \<longrightarrow> boardAt position r' c' \<noteq> Some (Piece color' King)"
  shows "findKing position color' = None"
proof -
  have "\<not> (case boardAt position (row sq) (col sq) of None \<Rightarrow> False
            | Some p \<Rightarrow> color p = color' \<and> ptype p = King)" if "sq \<in> set allSquares" for sq
  proof -
    from that have "inside (row sq) (col sq)" by (rule allSquares_inside)
    with assms have "boardAt position (row sq) (col sq) \<noteq> Some (Piece color' King)" by blast
    then show ?thesis by (auto split: option.splits simp: piece.expand)
  qed
  then show ?thesis unfolding findKing_def by (simp add: find_None_iff)
qed

text \<open>
  Claim C9. When no square of the board holds a king of the given colour, \<open>inCheck\<close>
  returns false for that colour.
\<close>

theorem inCheck_no_king:
  assumes "wf_position position"
    and "\<forall>r' c'. inside r' c' \<longrightarrow> boardAt position r' c' \<noteq> Some (Piece color' King)"
  shows "inCheck position color' = Some False"
  using findKing_None [OF assms(2)] by (simp add: inCheck_def)

theorem inCheck_no_king_witness:
  "wf_position loneKingPosition
   \<and> list_all (\<lambda>sq. boardAt loneKingPosition (row sq) (col sq) \<noteq> Some (Piece Black King))
       allSquares
   \<and> inCheck loneKingPosition Black = Some False"
proof -
  have wf: "wf_position loneKingPosition" by code_simp
  have none: "list_all (\<lambda>sq. boardAt loneKingPosition (row sq) (col sq)
                              \<noteq> Some (Piece Black King)) allSquares"
    by code_simp
  have "\<forall>r' c'. inside r' c' \<longrightarrow> boardAt loneKingPosition r' c' \<noteq> Some (Piece Black King)"
  proof (intro allI impI)
    fix r' c' assume "inside r' c'"
    then have "Square r' c' \<in> set allSquares" by (rule inside_allSquares)
    with none show "boardAt loneKingPosition r' c' \<noteq> Some (Piece Black King)"
      by (auto simp: list_all_iff)
  qed
  from inCheck_no_king [OF wf this] wf none show ?thesis by simp
qed

subsection \<open>The sliding loop returns\<close>

lemma stepsLeft_pos: "inside r' c' \<Longrightarrow> 0 < stepsLeft dr dc r' c'"
  by (auto simp: inside_def stepsLeft_def)

lemma stepsLeft_le8: "inside r' c' \<Longrightarrow> stepsLeft dr dc r' c' \<le> 8"
  by (auto simp: inside_def stepsLeft_def)

lemma stepsLeft_step:
  "dr \<noteq> 0 \<or> dc \<noteq> 0 \<Longrightarrow> inside r' c' \<Longrightarrow> inside (r' + dr) (c' + dc) \<Longrightarrow>
   stepsLeft dr dc (r' + dr) (c' + dc) < stepsLeft dr dc r' c'"
  by (auto simp: inside_def stepsLeft_def)

lemma slideLoop_rayN:
  assumes nz: "dr \<noteq> 0 \<or> dc \<noteq> 0"
  shows "(inside r' c' \<longrightarrow> stepsLeft dr dc r' c' \<le> n) \<Longrightarrow>
         slideLoop position from color' dr dc r' c' moves
           = Some (moves @ rayN n position from color' dr dc r' c')"
proof (induction n arbitrary: r' c' moves)
  case 0
  then have "\<not> inside r' c'" using stepsLeft_pos [of r' c' dr dc] by auto
  then show ?case by (subst slideLoop.simps) simp
next
  case (Suc n)
  show ?case
  proof (cases "inside r' c'")
    case False
    then show ?thesis by (subst slideLoop.simps) simp
  next
    case True
    show ?thesis
    proof (cases "boardAt position r' c'")
      case (Some target)
      with True show ?thesis by (subst slideLoop.simps) simp
    next
      case None
      have "inside (r' + dr) (c' + dc) \<longrightarrow> stepsLeft dr dc (r' + dr) (c' + dc) \<le> n"
        using stepsLeft_step [OF nz True] Suc.prems True by fastforce
      from Suc.IH [OF this] True None show ?thesis by (subst slideLoop.simps) simp
    qed
  qed
qed

lemma slideLoop_total:
  "dr \<noteq> 0 \<or> dc \<noteq> 0 \<Longrightarrow>
   slideLoop position from color' dr dc r' c' moves
     = Some (moves @ rayN 8 position from color' dr dc r' c')"
  by (rule slideLoop_rayN) (auto simp: stepsLeft_le8)

lemma slideAll_rays:
  "\<forall>(dr, dc) \<in> set deltas. dr \<noteq> 0 \<or> dc \<noteq> 0 \<Longrightarrow>
   slideAll position from color' deltas moves = Some (moves @ rays position from color' deltas)"
proof (induction deltas arbitrary: moves)
  case Nil
  then show ?case by (simp add: rays_def)
next
  case (Cons d deltas)
  obtain dr dc where d: "d = (dr, dc)" by (cases d)
  with Cons.prems have nz: "dr \<noteq> 0 \<or> dc \<noteq> 0" by simp
  from Cons.prems have "\<forall>(dr, dc) \<in> set deltas. dr \<noteq> 0 \<or> dc \<noteq> 0" by simp
  from Cons.IH [OF this] show ?case
    by (simp add: d slideLoop_total [OF nz] rays_def)
qed

lemma genSliding_rays:
  "\<forall>(dr, dc) \<in> set deltas. dr \<noteq> 0 \<or> dc \<noteq> 0 \<Longrightarrow>
   genSliding position from color' deltas = Some (rays position from color' deltas)"
  by (simp add: genSliding_def slideAll_rays)

lemma pseudo_total: "\<exists>ms. pseudoLegalMovesForSquare position from = Some ms"
  by (auto simp: pseudoLegalMovesForSquare_def genSliding_rays bishopDeltas_def rookDeltas_def
        queenDeltas_def split: option.splits ptype.splits)

lemma attackedLoop_total: "\<exists>b. attackedLoop position sq byColor sqs = Some b"
proof (induction sqs)
  case Nil
  then show ?case by auto
next
  case (Cons s rest)
  obtain ms where "pseudoLegalMovesForSquare position s = Some ms"
    using pseudo_total by blast
  with Cons show ?case by (auto simp: Let_def split: option.splits)
qed

lemma inCheck_total: "\<exists>b. inCheck position color' = Some b"
  by (auto simp: inCheck_def isSquareAttacked_def attackedLoop_total split: option.splits)

lemma keepSafe_closed:
  "keepSafe position turn pseudo moves
     = Some (moves @ filter (\<lambda>mv. wouldLeaveKingInCheck position mv turn = Some False) pseudo)"
proof (induction pseudo arbitrary: moves)
  case Nil
  then show ?case by simp
next
  case (Cons mv pseudo)
  obtain b where "wouldLeaveKingInCheck position mv turn = Some b"
    using inCheck_total by (auto simp: wouldLeaveKingInCheck_def)
  with Cons show ?case by simp
qed

lemma legalLoop_total: "\<exists>ms. legalLoop position turn sqs moves = Some ms"
proof (induction sqs arbitrary: moves)
  case Nil
  then show ?case by simp
next
  case (Cons s rest)
  obtain ps where "pseudoLegalMovesForSquare position s = Some ps"
    using pseudo_total by blast
  with Cons show ?case by (auto simp: keepSafe_closed split: option.splits)
qed

lemma legalLoop_member:
  "legalLoop position turn sqs moves = Some ms \<Longrightarrow> mv \<in> set ms \<Longrightarrow>
   mv \<in> set moves \<or>
   (\<exists>from \<in> set sqs. \<exists>p pseudo.
      boardAt position (row from) (col from) = Some p \<and> color p = turn \<and>
      pseudoLegalMovesForSquare position from = Some pseudo \<and> mv \<in> set pseudo \<and>
      wouldLeaveKingInCheck position mv turn = Some False)"
proof (induction sqs arbitrary: moves)
  case Nil
  then show ?case by simp
next
  case (Cons s rest)
  show ?case
  proof (cases "boardAt position (row s) (col s)")
    case None
    with Cons.prems have "legalLoop position turn rest moves = Some ms" by simp
    from Cons.IH [OF this Cons.prems(2)] show ?thesis by auto
  next
    case (Some p)
    show ?thesis
    proof (cases "color p = turn")
      case False
      with Some Cons.prems have "legalLoop position turn rest moves = Some ms" by simp
      from Cons.IH [OF this Cons.prems(2)] show ?thesis by auto
    next
      case True
      obtain ps where ps: "pseudoLegalMovesForSquare position s = Some ps"
        using pseudo_total by blast
      let ?kept = "filter (\<lambda>mv. wouldLeaveKingInCheck position mv turn = Some False) ps"
      from Some True ps Cons.prems
      have "legalLoop position turn rest (moves @ ?kept) = Some ms"
        by (simp add: keepSafe_closed)
      from Cons.IH [OF this Cons.prems(2)] Some True ps show ?thesis by auto
    qed
  qed
qed

subsection \<open>Reading and writing the board\<close>

lemma clonePosition_id: "clonePosition position = position"
proof -
  have "(\<lambda>p. case p of Some q \<Rightarrow> Some (Piece (color q) (ptype q)) | None \<Rightarrow> None)
          = (\<lambda>p :: piece option. p)"
    by (auto split: option.splits)
  then show ?thesis by (cases position) (simp add: clonePosition_def)
qed

lemma wf_nth: "wf_position position \<Longrightarrow> n < 8 \<Longrightarrow> length (board position ! n) = 8"
  by (simp add: wf_position_def list_all_length)

lemma wf_boardSet: "wf_position position \<Longrightarrow> wf_position (boardSet position r' c' v)"
proof (cases "inside r' c'")
  case False
  assume "wf_position position"
  with False show ?thesis by (simp add: boardSet_def)
next
  case True
  assume wf: "wf_position position"
  from True have "nat r' < 8" by (auto simp: inside_def)
  with wf True show ?thesis
    by (auto simp: wf_position_def boardSet_def list_all_length nth_list_update)
qed

lemma boardAt_boardSet:
  assumes "wf_position position" "inside r' c'"
  shows "boardAt (boardSet position r' c' v) r2 c2
           = (if r2 = r' \<and> c2 = c' then v else boardAt position r2 c2)"
proof (cases "inside r2 c2")
  case False
  with assms show ?thesis by (auto simp: boardAt_def)
next
  case True
  from assms(2) have a: "nat r' < 8" "nat c' < 8" by (auto simp: inside_def)
  from True have b: "nat r2 < 8" "nat c2 < 8" by (auto simp: inside_def)
  have eqr: "nat r2 = nat r' \<longleftrightarrow> r2 = r'" and eqc: "nat c2 = nat c' \<longleftrightarrow> c2 = c'"
    using assms(2) True by (auto simp: inside_def)
  have len: "length (board position) = 8" using assms(1) by (simp add: wf_position_def)
  have lenr: "length (board position ! nat r') = 8" using wf_nth [OF assms(1) a(1)] .
  have "board (boardSet position r' c' v) ! nat r2 ! nat c2
          = (if r2 = r' \<and> c2 = c' then v else board position ! nat r2 ! nat c2)"
  proof (cases "r2 = r'")
    case False
    with eqr have "nat r' \<noteq> nat r2" by simp
    with False assms(2) show ?thesis by (simp add: boardSet_def)
  next
    case same: True
    show ?thesis
    proof (cases "c2 = c'")
      case True
      with same assms(2) a len lenr show ?thesis by (simp add: boardSet_def)
    next
      case False
      with eqc have "nat c' \<noteq> nat c2" by simp
      with same False assms(2) a len show ?thesis by (simp add: boardSet_def)
    qed
  qed
  with True show ?thesis by (simp add: boardAt_def)
qed

lemma boardAt_applyMove_to:
  assumes "wf_position position"
    and "inside (row (to_sq mv)) (col (to_sq mv))"
    and "inside (row (from_sq mv)) (col (from_sq mv))"
    and "boardAt position (row (from_sq mv)) (col (from_sq mv)) = Some p"
  shows "boardAt (applyMove position mv) (row (to_sq mv)) (col (to_sq mv))
           = (if ptype p = Pawn \<and> promotion mv \<noteq> None then Some (Piece (color p) Queen)
              else Some p)"
proof -
  let ?n1 = "boardSet position (row (from_sq mv)) (col (from_sq mv)) None"
  have wf1: "wf_position ?n1" using assms(1) by (rule wf_boardSet)
  show ?thesis
    using assms(4)
    by (cases "promotion mv")
       (auto simp: applyMove_def clonePosition_id Let_def boardAt_boardSet [OF wf1 assms(2)]
          promoType_def split: promo.splits)
qed

subsection \<open>Moves of one square\<close>

lemma fold_list_all:
  assumes "\<And>x acc. list_all P acc \<Longrightarrow> list_all P (f x acc)" "list_all P acc"
  shows "list_all P (fold f xs acc)"
  using assms(2) by (induction xs arbitrary: acc) (auto intro: assms(1))

lemma pushIfValid_fromTo:
  "list_all (fromTo s) moves \<Longrightarrow> list_all (fromTo s) (pushIfValid moves position s r' c' color')"
  by (auto simp: pushIfValid_def fromTo_def split: option.splits)

lemma stepMoves_fromTo: "list_all (fromTo s) (stepMoves position s color' deltas)"
  unfolding stepMoves_def
  by (rule fold_list_all) (auto intro: pushIfValid_fromTo)

lemma rayN_fromTo: "list_all (fromTo s) (rayN n position s color' dr dc r' c')"
  by (induction n arbitrary: r' c') (auto simp: fromTo_def split: option.splits)

lemma rays_fromTo: "list_all (fromTo s) (rays position s color' deltas)"
  by (auto simp: rays_def list_all_iff dest!: rayN_fromTo [unfolded list_all_iff, rule_format])

lemma pawnCapture_fromTo:
  "list_all (fromTo s) moves \<Longrightarrow> list_all (fromTo s) (pawnCapture position s color' r1 dc moves)"
  by (auto simp: pawnCapture_def fromTo_def Let_def)

lemma pawnMoves_fromTo: "list_all (fromTo s) (pawnMoves position s color')"
  unfolding pawnMoves_def Let_def
  by (rule fold_list_all) (auto intro: pawnCapture_fromTo simp: fromTo_def)

lemma pseudo_fromTo:
  "pseudoLegalMovesForSquare position s = Some pseudo \<Longrightarrow> list_all (fromTo s) pseudo"
  by (auto simp: pseudoLegalMovesForSquare_def genSliding_rays bishopDeltas_def rookDeltas_def
        queenDeltas_def stepMoves_fromTo rays_fromTo pawnMoves_fromTo
        split: option.splits ptype.splits)

subsection \<open>Legal moves\<close>

lemma findKing_only_king:
  assumes "inside r' c'" "boardAt position r' c' = Some (Piece turn King)"
    and "\<forall>r2 c2. inside r2 c2 \<and> boardAt position r2 c2 = Some (Piece turn King)
           \<longrightarrow> r2 = r' \<and> c2 = c'"
  shows "findKing position turn = Some (Square r' c')"
proof -
  let ?P = "\<lambda>sq. case boardAt position (row sq) (col sq) of
                    None \<Rightarrow> False
                  | Some p \<Rightarrow> color p = turn \<and> ptype p = King"
  have "Square r' c' \<in> set allSquares" using assms(1) by (rule inside_allSquares)
  moreover have "?P (Square r' c')" using assms(2) by simp
  ultimately have "find ?P allSquares \<noteq> None" by (auto simp: find_None_iff)
  then obtain x where x: "find ?P allSquares = Some x" by blast
  then have "?P x" "x \<in> set allSquares" by (auto simp: find_Some_iff)
  then have "boardAt position (row x) (col x) = Some (Piece turn King)" "inside (row x) (col x)"
    by (auto split: option.splits simp: piece.expand allSquares_inside)
  with assms(3) have "x = Square r' c'" by (cases x) auto
  with x show ?thesis by (simp add: findKing_def)
qed

text \<open>
  Claim C1. For every position (an 8 by 8 board) and every colour \<open>turn\<close>,
  \<open>generateLegalMoves\<close> returns a list, and for every move of the list the position
  obtained with \<open>applyMove\<close> has the following property: when \<open>findKing\<close> locates
  \<open>turn\<close>'s king there, \<open>isSquareAttacked\<close> answers false for that square and the
  opposing colour. In particular, when exactly one square holds a king of \<open>turn\<close>, that
  square is not attacked.
\<close>

theorem legal_moves_keep_king_safe:
  assumes "wf_position position"
  shows "\<exists>ms. generateLegalMoves position turn = Some ms \<and>
          (\<forall>mv \<in> set ms.
             (\<forall>kingSq. findKing (applyMove position mv) turn = Some kingSq \<longrightarrow>
                isSquareAttacked (applyMove position mv) kingSq (opposite turn) = Some False)
           \<and> (\<forall>r' c'. inside r' c'
                  \<and> boardAt (applyMove position mv) r' c' = Some (Piece turn King)
                  \<and> (\<forall>r2 c2. inside r2 c2
                         \<and> boardAt (applyMove position mv) r2 c2 = Some (Piece turn King)
                       \<longrightarrow> r2 = r' \<and> c2 = c')
                \<longrightarrow> isSquareAttacked (applyMove position mv) (Square r' c') (opposite turn)
                      = Some False))"
proof -
  obtain ms where ms: "generateLegalMoves position turn = Some ms"
    using legalLoop_total [of position turn allSquares "[]"]
    by (auto simp: generateLegalMoves_def)
  have found: "isSquareAttacked (applyMove position mv) kingSq (opposite turn) = Some False"
    if "mv \<in> set ms" "findKing (applyMove position mv) turn = Some kingSq" for mv kingSq
  proof -
    from legalLoop_member [OF ms [unfolded generateLegalMoves_def] that(1)]
    have "wouldLeaveKingInCheck position mv turn = Some False" by auto
    with that(2) show ?thesis by (simp add: wouldLeaveKingInCheck_def inCheck_def)
  qed
  have only: "isSquareAttacked (applyMove position mv) (Square r' c') (opposite turn) = Some False"
    if "mv \<in> set ms" "inside r' c'"
      "boardAt (applyMove position mv) r' c' = Some (Piece turn King)"
      "\<forall>r2 c2. inside r2 c2 \<and> boardAt (applyMove position mv) r2 c2 = Some (Piece turn King)
         \<longrightarrow> r2 = r' \<and> c2 = c'"
    for mv r' c'
    using found [OF that(1) findKing_only_king [OF that(2,3,4)]] .
  from ms found only show ?thesis by blast
qed

theorem legal_moves_keep_king_safe_witness:
  "wf_position kingPawnPosition
   \<and> generateLegalMoves kingPawnPosition Black = Some [Move (Square 0 0) (Square 0 1) None None]
   \<and> findKing (applyMove kingPawnPosition (Move (Square 0 0) (Square 0 1) None None)) Black
       = Some (Square 0 1)
   \<and> isSquareAttacked (applyMove kingPawnPosition (Move (Square 0 0) (Square 0 1) None None))
       (Square 0 1) (opposite Black) = Some False"
proof -
  let ?mv = "Move (Square 0 0) (Square 0 1) None None"
  have wf: "wf_position kingPawnPosition" by code_simp
  have gen: "generateLegalMoves kingPawnPosition Black = Some [?mv]" by code_simp
  have king: "findKing (applyMove kingPawnPosition ?mv) Black = Some (Square 0 1)" by code_simp
  from legal_moves_keep_king_safe [OF wf, of Black] gen king
  have "isSquareAttacked (applyMove kingPawnPosition ?mv) (Square 0 1) (opposite Black)
          = Some False"
    by auto
  with wf gen king show ?thesis by simp
qed

subsection \<open>Promotion and notation\<close>

lemma boardAt_inside: "boardAt position r' c' = Some p \<Longrightarrow> inside r' c'"
  by (auto simp: boardAt_def split: if_splits)

lemma pawnCapture_promo:
  "list_all (\<lambda>m. promotion m = Some PromoQ) moves \<Longrightarrow>
   list_all (\<lambda>m. promotion m = Some PromoQ) (pawnCapture position s color' 0 dc moves)"
  by (auto simp: pawnCapture_def Let_def)

lemma pawnMoves_promo:
  assumes "row s = 1"
  shows "list_all (\<lambda>m. promotion m = Some PromoQ) (pawnMoves position s White)"
  unfolding pawnMoves_def Let_def using assms
  by (simp add: inside_def pawnCapture_promo)

text \<open>
  Claim C7. In a position with a white pawn on row 1, every move of that pawn to row 0 that
  \<open>generateLegalMoves\<close> returns, onto an empty square or capturing, makes
  \<open>makeMove\<close> place a white queen on the destination square and return a notation
  that ends with \<open>=Q\<close>.
\<close>

theorem white_pawn_promotes:
  assumes "wf_position position"
    and "boardAt position 1 c0 = Some (Piece White Pawn)"
    and "generateLegalMoves position turn = Some ms"
    and "mv \<in> set ms"
    and "from_sq mv = Square 1 c0"
    and "row (to_sq mv) = 0"
  shows "boardAt (fst (makeMove position mv)) (row (to_sq mv)) (col (to_sq mv))
           = Some (Piece White Queen)
         \<and> suffix ''=Q'' (snd (makeMove position mv))"
proof -
  from legalLoop_member [OF assms(3) [unfolded generateLegalMoves_def] assms(4)]
  obtain s p pseudo where s:
    "boardAt position (row s) (col s) = Some p"
    "pseudoLegalMovesForSquare position s = Some pseudo" "mv \<in> set pseudo"
    by auto
  from pseudo_fromTo [OF s(2)] s(3) have ft: "fromTo s mv" by (simp add: list_all_iff)
  with assms(5) have s_eq: "s = Square 1 c0" by (simp add: fromTo_def)
  from ft have to_in: "inside (row (to_sq mv)) (col (to_sq mv))" by (simp add: fromTo_def)
  have at_from: "boardAt position (row (from_sq mv)) (col (from_sq mv)) = Some (Piece White Pawn)"
    using assms(2,5) by simp
  then have from_in: "inside (row (from_sq mv)) (col (from_sq mv))" by (rule boardAt_inside)
  from s(2) assms(2) have "pseudo = pawnMoves position (Square 1 c0) White"
    by (simp add: s_eq pseudoLegalMovesForSquare_def)
  with s(3) pawnMoves_promo [of "Square 1 c0" position]
  have promo: "promotion mv = Some PromoQ" by (simp add: list_all_iff)
  have placed: "boardAt (applyMove position mv) (row (to_sq mv)) (col (to_sq mv))
                  = Some (Piece White Queen)"
    using boardAt_applyMove_to [OF assms(1) to_in from_in at_from] promo by simp
  have "snd (makeMove position mv)
          = (squareToAlgebraic (from_sq mv)
             @ (case captured mv of Some _ \<Rightarrow> ''x'' | None \<Rightarrow> ''-'')
             @ squareToAlgebraic (to_sq mv)) @ ''=Q''"
    using at_from promo
    by (simp add: makeMove_def moveToSANLike_def pieceLetter_def typeLetter_def promoType_def)
  then have "suffix ''=Q'' (snd (makeMove position mv))"
    by (simp only: suffixI)
  with placed show ?thesis by (simp add: makeMove_def)
qed

theorem white_pawn_promotes_witness:
  "wf_position promotionPosition
   \<and> boardAt promotionPosition 1 2 = Some (Piece White Pawn)
   \<and> generateLegalMoves promotionPosition White
       = Some [Move (Square 1 2) (Square 0 2) (Some PromoQ) None,
               Move (Square 1 2) (Square 0 3) (Some PromoQ) (Some (Piece Black Rook)),
               Move (Square 7 4) (Square 6 4) None None,
               Move (Square 7 4) (Square 6 5) None None,
               Move (Square 7 4) (Square 7 5) None None]
   \<and> boardAt (fst (makeMove promotionPosition
        (Move (Square 1 2) (Square 0 3) (Some PromoQ) (Some (Piece Black Rook))))) 0 3
       = Some (Piece White Queen)
   \<and> suffix ''=Q'' (snd (makeMove promotionPosition
        (Move (Square 1 2) (Square 0 3) (Some PromoQ) (Some (Piece Black Rook)))))
   \<and> snd (makeMove promotionPosition
        (Move (Square 1 2) (Square 0 3) (Some PromoQ) (Some (Piece Black Rook)))) = ''c7xd8=Q''"
proof -
  let ?mv = "Move (Square 1 2) (Square 0 3) (Some PromoQ) (Some (Piece Black Rook))"
  have wf: "wf_position promotionPosition" by code_simp
  have pawn: "boardAt promotionPosition 1 2 = Some (Piece White Pawn)" by code_simp
  have gen: "generateLegalMoves promotionPosition White
       = Some [Move (Square 1 2) (Square 0 2) (Some PromoQ) None, ?mv,
               Move (Square 7 4) (Square 6 4) None None,
               Move (Square 7 4) (Square 6 5) None None,
               Move (Square 7 4) (Square 7 5) None None]" by code_simp
  have san: "snd (makeMove promotionPosition ?mv) = ''c7xd8=Q''" by code_simp
  from white_pawn_promotes [OF wf pawn gen, of ?mv] wf pawn gen san show ?thesis by simp
qed

text \<open>
  Claim C8. For a move whose origin square holds a piece, the notation returned by
  \<open>makeMove\<close> is the piece letter (nothing for a pawn), the origin square, \<open>x\<close> when
  the move carries a captured piece and \<open>-\<close> otherwise, the destination square, and
  \<open>=Q\<close> when the move carries a promotion marker. Position and destination are taken
  from the data model: an 8 by 8 board and a square on it.
\<close>

theorem makeMove_notation:
  assumes "wf_position position"
    and "inside (row (to_sq mv)) (col (to_sq mv))"
    and "boardAt position (row (from_sq mv)) (col (from_sq mv)) = Some p"
  shows "snd (makeMove position mv)
           = (if ptype p = Pawn then [] else typeLetter (ptype p))
             @ squareToAlgebraic (from_sq mv)
             @ (if captured mv = None then ''-'' else ''x'')
             @ squareToAlgebraic (to_sq mv)
             @ (if promotion mv = None then [] else ''=Q'')"
  using assms(3)
  by (auto simp: makeMove_def moveToSANLike_def pieceLetter_def promoType_def typeLetter_def
        split: option.splits promo.splits)

theorem makeMove_notation_witness:
  "wf_position foolsMate \<and> inside 4 6 \<and> boardAt foolsMate 4 7 = Some (Piece Black Queen)
   \<and> snd (makeMove foolsMate (Move (Square 4 7) (Square 4 6) None (Some (Piece White Pawn))))
       = ''Qh4xg4''
   \<and> ''Qh4xg4'' = typeLetter Queen @ squareToAlgebraic (Square 4 7) @ ''x''
                   @ squareToAlgebraic (Square 4 6)"
proof -
  let ?mv = "Move (Square 4 7) (Square 4 6) None (Some (Piece White Pawn))"
  have wf: "wf_position foolsMate" by code_simp
  have ins: "inside (row (to_sq ?mv)) (col (to_sq ?mv))" by code_simp
  have piece: "boardAt foolsMate (row (from_sq ?mv)) (col (from_sq ?mv)) = Some (Piece Black Queen)"
    by code_simp
  have letters: "''Qh4xg4'' = typeLetter Queen @ squareToAlgebraic (Square 4 7) @ ''x''
                   @ squareToAlgebraic (Square 4 6)" by code_simp
  from makeMove_notation [OF wf ins piece] letters wf ins piece show ?thesis by simp
qed

subsection \<open>Sliding pieces\<close>

lemma hit_0:
  "hit position s color' dr dc r' c' 0 m \<longleftrightarrow>
     inside r' c' \<and>
     (case boardAt position r' c' of
        None \<Rightarrow> m = Move s (Square r' c') None None
      | Some t \<Rightarrow> color t \<noteq> color' \<and> m = Move s (Square r' c') None (Some t))"
  by (auto simp: hit_def split: option.splits)

lemma hit_Suc:
  "hit position s color' dr dc r' c' (Suc j) m \<longleftrightarrow>
     inside r' c' \<and> boardAt position r' c' = None
     \<and> hit position s color' dr dc (r' + dr) (c' + dc) j m"
proof -
  have shift: "\<And>i. r' + dr + int i * dr = r' + int (Suc i) * dr"
              "\<And>i. c' + dc + int i * dc = c' + int (Suc i) * dc"
    by (simp_all add: algebra_simps)
  have all: "\<And>Q. (\<forall>i<Suc j. Q i) \<longleftrightarrow> Q 0 \<and> (\<forall>i<j. Q (Suc i))"
    by (metis less_Suc_eq_0_disj)
  show ?thesis
    unfolding hit_def shift all by auto
qed

lemma rayN_mem:
  "m \<in> set (rayN n position s color' dr dc r' c')
     \<longleftrightarrow> (\<exists>j<n. hit position s color' dr dc r' c' j m)"
proof (induction n arbitrary: r' c')
  case 0
  show ?case by simp
next
  case (Suc n)
  have ex: "\<And>Q. (\<exists>j<Suc n. Q j) \<longleftrightarrow> Q 0 \<or> (\<exists>j<n. Q (Suc j))"
    by (metis less_Suc_eq_0_disj)
  show ?case
    unfolding ex hit_Suc hit_0 using Suc.IH [of "r' + dr" "c' + dc"]
    by (auto split: option.splits)
qed


lemma rayN_stable:
  assumes "dr \<noteq> 0 \<or> dc \<noteq> 0" "8 \<le> n"
  shows "rayN n position s color' dr dc r' c' = rayN 8 position s color' dr dc r' c'"
proof -
  have "inside r' c' \<longrightarrow> stepsLeft dr dc r' c' \<le> n"
    using stepsLeft_le8 [of r' c' dr dc] assms(2) by auto
  from slideLoop_rayN [OF assms(1) this, of position s color' "[]"]
       slideLoop_total [OF assms(1), of position s color' r' c' "[]"]
  show ?thesis by simp
qed

lemma rayN8_mem:
  assumes "dr \<noteq> 0 \<or> dc \<noteq> 0"
  shows "m \<in> set (rayN 8 position s color' dr dc r' c')
           \<longleftrightarrow> (\<exists>j. hit position s color' dr dc r' c' j m)"
proof
  assume "m \<in> set (rayN 8 position s color' dr dc r' c')"
  then show "\<exists>j. hit position s color' dr dc r' c' j m" by (auto simp: rayN_mem)
next
  assume "\<exists>j. hit position s color' dr dc r' c' j m"
  then obtain j where j: "hit position s color' dr dc r' c' j m" ..
  then have "m \<in> set (rayN (Suc j + 8) position s color' dr dc r' c')"
    unfolding rayN_mem by (intro exI [of _ j]) simp
  with rayN_stable [OF assms, of "Suc j + 8"] show "m \<in> set (rayN 8 position s color' dr dc r' c')"
    by simp
qed

lemma hit_onRay:
  "hit position s color' dr dc (row s + dr) (col s + dc) j m
     \<longleftrightarrow> onRay position s color' dr dc (int j + 1) m"
proof -
  have sq: "\<And>i. row s + dr + int i * dr = row s + (int i + 1) * dr"
           "\<And>i. col s + dc + int i * dc = col s + (int i + 1) * dc"
    by (simp_all add: algebra_simps)
  have rng: "(\<forall>i<j. Q (int i + 1)) \<longleftrightarrow> (\<forall>k\<in>{1..int j}. Q k)" for Q
  proof
    assume a: "\<forall>i<j. Q (int i + 1)"
    show "\<forall>k\<in>{1..int j}. Q k"
    proof
      fix k assume "k \<in> {1..int j}"
      then have "nat (k - 1) < j" "int (nat (k - 1)) + 1 = k" by auto
      with a show "Q k" by metis
    qed
  next
    assume "\<forall>k\<in>{1..int j}. Q k"
    then show "\<forall>i<j. Q (int i + 1)" by auto
  qed
  have "(\<forall>i<j. inside (row s + (int i + 1) * dr) (col s + (int i + 1) * dc)
               \<and> boardAt position (row s + (int i + 1) * dr) (col s + (int i + 1) * dc) = None)
        \<longleftrightarrow> (\<forall>k\<in>{1..int j}. inside (row s + k * dr) (col s + k * dc)
               \<and> boardAt position (row s + k * dr) (col s + k * dc) = None)"
    by (rule rng [of "\<lambda>k. inside (row s + k * dr) (col s + k * dc)
               \<and> boardAt position (row s + k * dr) (col s + k * dc) = None"])
  then show ?thesis
    unfolding hit_def onRay_def clearBefore_def raySquare_def squareAt_def sq list_all_iff
    by simp
qed

lemma rays_mem:
  assumes "\<forall>(dr, dc) \<in> set deltas. dr \<noteq> 0 \<or> dc \<noteq> 0"
  shows "m \<in> set (rays position s color' deltas)
           \<longleftrightarrow> (\<exists>(dr, dc) \<in> set deltas. \<exists>k\<ge>1. onRay position s color' dr dc k m)"
proof -
  have "(\<exists>j. hit position s color' dr dc (row s + dr) (col s + dc) j m)
          \<longleftrightarrow> (\<exists>k\<ge>1. onRay position s color' dr dc k m)" for dr dc
  proof
    assume "\<exists>j. hit position s color' dr dc (row s + dr) (col s + dc) j m"
    then obtain j where "onRay position s color' dr dc (int j + 1) m" by (auto simp: hit_onRay)
    then show "\<exists>k\<ge>1. onRay position s color' dr dc k m" by (intro exI [of _ "int j + 1"]) simp
  next
    assume "\<exists>k\<ge>1. onRay position s color' dr dc k m"
    then obtain k where k: "1 \<le> k" "onRay position s color' dr dc k m" by blast
    then have "int (nat (k - 1)) + 1 = k" by simp
    with k(2) have "hit position s color' dr dc (row s + dr) (col s + dc) (nat (k - 1)) m"
      by (simp add: hit_onRay)
    then show "\<exists>j. hit position s color' dr dc (row s + dr) (col s + dc) j m" ..
  qed
  note ex = this
  have "m \<in> set (rays position s color' deltas)
          \<longleftrightarrow> (\<exists>d \<in> set deltas.
                 m \<in> set (rayN 8 position s color' (fst d) (snd d) (row s + fst d) (col s + snd d)))"
    by (simp add: rays_def case_prod_beta)
  also have "\<dots> \<longleftrightarrow> (\<exists>d \<in> set deltas. \<exists>k\<ge>1. onRay position s color' (fst d) (snd d) k m)"
  proof (rule bex_cong [OF refl])
    fix d assume "d \<in> set deltas"
    with assms have "fst d \<noteq> 0 \<or> snd d \<noteq> 0" by (auto simp: case_prod_beta)
    from rayN8_mem [OF this] ex
    show "m \<in> set (rayN 8 position s color' (fst d) (snd d) (row s + fst d) (col s + snd d))
            \<longleftrightarrow> (\<exists>k\<ge>1. onRay position s color' (fst d) (snd d) k m)"
      by simp
  qed
  finally show ?thesis by (simp add: case_prod_beta)
qed

lemma queenDeltas_nonzero: "\<forall>(dr, dc) \<in> set queenDeltas. dr \<noteq> 0 \<or> dc \<noteq> 0"
  by (simp add: queenDeltas_def)

lemma slidingDeltas_queen: "d \<in> set (slidingDeltas t) \<Longrightarrow> d \<in> set queenDeltas"
  by (auto simp: slidingDeltas_def queenDeltas_def bishopDeltas_def rookDeltas_def
        split: ptype.splits)

lemma slidingDeltas_nonzero: "\<forall>(dr, dc) \<in> set (slidingDeltas t). dr \<noteq> 0 \<or> dc \<noteq> 0"
  using queenDeltas_nonzero slidingDeltas_queen by blast

lemma unit_step:
  "(dr, dc) \<in> set queenDeltas \<Longrightarrow> max \<bar>k * dr\<bar> \<bar>k * dc\<bar> = \<bar>k\<bar>"
  by (auto simp: queenDeltas_def)

lemma ray_unique:
  assumes "(dr, dc) \<in> set queenDeltas" "(dr2, dc2) \<in> set queenDeltas" "1 \<le> k" "1 \<le> k2"
    and "raySquare s dr dc k = raySquare s dr2 dc2 k2"
  shows "dr2 = dr \<and> dc2 = dc \<and> k2 = k"
proof -
  from assms(5) have eq: "k * dr = k2 * dr2" "k * dc = k2 * dc2"
    by (simp_all add: raySquare_def)
  from unit_step [OF assms(1), of k] unit_step [OF assms(2), of k2] eq assms(3,4)
  have k: "k2 = k" by simp
  with eq assms(3) show ?thesis by simp
qed

lemma pseudo_sliding:
  assumes "boardAt position (row s) (col s) = Some p"
    and "ptype p = Bishop \<or> ptype p = Rook \<or> ptype p = Queen"
  shows "pseudoLegalMovesForSquare position s
           = Some (rays position s (color p) (slidingDeltas (ptype p)))"
proof -
  have "genSliding position s (color p) (slidingDeltas (ptype p))
          = Some (rays position s (color p) (slidingDeltas (ptype p)))"
    by (rule genSliding_rays) (rule slidingDeltas_nonzero)
  with assms show ?thesis
    by (auto simp: pseudoLegalMovesForSquare_def slidingDeltas_def)
qed

lemma clearBefore_Suc:
  "1 \<le> k \<Longrightarrow> clearBefore position s dr dc (k + 1) \<longleftrightarrow>
     clearBefore position s dr dc k
     \<and> inside (row (raySquare s dr dc k)) (col (raySquare s dr dc k))
     \<and> squareAt position (raySquare s dr dc k) = None"
proof -
  assume "1 \<le> k"
  then have "{1..k + 1 - 1} = insert k {1..k - 1}" by auto
  then show ?thesis by (simp add: clearBefore_def list_all_iff) blast
qed

text \<open>
  Claim C5. Let a bishop, rook or queen stand on a square of the position, and take one of
  the directions of that piece and a number of steps k, at least 1. The pseudo-legal
  generator returns a list of moves such that:
  \<^item> when the squares 1 to k of the ray are on the board and empty, the quiet move onto the
    k-th square is in the list;
  \<^item> a move of the list onto the k-th square exists only when the squares before it are on
    the board and empty, so nothing lies beyond the first occupied square; it then starts at
    the origin, has no promotion marker, and its captured piece is the content of the
    destination;
  \<^item> when the k-th square is the first occupied one, the capture onto it is in the list if
    and only if its piece is of the other colour;
  \<^item> no move of the list ends on a square that holds a piece of the mover's colour.
\<close>

theorem sliding_moves_stop_at_first_piece:
  assumes "wf_position position"
    and "boardAt position (row s) (col s) = Some p"
    and "ptype p = Bishop \<or> ptype p = Rook \<or> ptype p = Queen"
    and "(dr, dc) \<in> set (slidingDeltas (ptype p))"
    and "1 \<le> k"
  shows "\<exists>ms. pseudoLegalMovesForSquare position s = Some ms
     \<and> (clearBefore position s dr dc (k + 1) \<longrightarrow> Move s (raySquare s dr dc k) None None \<in> set ms)
     \<and> (\<forall>m \<in> set ms. to_sq m = raySquare s dr dc k \<longrightarrow>
           clearBefore position s dr dc k
           \<and> inside (row (raySquare s dr dc k)) (col (raySquare s dr dc k))
           \<and> m = Move s (raySquare s dr dc k) None (squareAt position (raySquare s dr dc k)))
     \<and> (\<forall>t. clearBefore position s dr dc k \<and> squareAt position (raySquare s dr dc k) = Some t \<longrightarrow>
           (Move s (raySquare s dr dc k) None (Some t) \<in> set ms \<longleftrightarrow> color t \<noteq> color p))
     \<and> (\<forall>m \<in> set ms. \<forall>t. squareAt position (to_sq m) = Some t \<longrightarrow> color t \<noteq> color p)"
proof -
  let ?ds = "slidingDeltas (ptype p)"
  let ?ms = "rays position s (color p) ?ds"
  let ?sq = "raySquare s dr dc k"
  have gen: "pseudoLegalMovesForSquare position s = Some ?ms"
    using assms(2,3) by (rule pseudo_sliding)
  have mem: "m \<in> set ?ms \<longleftrightarrow> (\<exists>(dr, dc) \<in> set ?ds. \<exists>k\<ge>1. onRay position s (color p) dr dc k m)"
    for m by (rule rays_mem) (rule slidingDeltas_nonzero)
  have here: "onRay position s (color p) dr dc k m" if "m \<in> set ?ms" "to_sq m = ?sq" for m
  proof -
    from that(1) obtain dr2 dc2 k2 where d2: "(dr2, dc2) \<in> set ?ds" "1 \<le> k2"
      and on: "onRay position s (color p) dr2 dc2 k2 m"
      unfolding mem by blast
    from on have "to_sq m = raySquare s dr2 dc2 k2"
      by (auto simp: onRay_def split: option.splits)
    with that(2) have "raySquare s dr dc k = raySquare s dr2 dc2 k2" by simp
    from ray_unique [OF slidingDeltas_queen [OF assms(4)] slidingDeltas_queen [OF d2(1)]
        assms(5) d2(2) this] on
    show ?thesis by simp
  qed
  have quiet: "Move s ?sq None None \<in> set ?ms" if "clearBefore position s dr dc (k + 1)"
  proof -
    from that have "onRay position s (color p) dr dc k (Move s ?sq None None)"
      by (simp add: clearBefore_Suc [OF assms(5)] onRay_def)
    with assms(4,5) show ?thesis unfolding mem by blast
  qed
  have only: "clearBefore position s dr dc k
              \<and> inside (row ?sq) (col ?sq)
              \<and> m = Move s ?sq None (squareAt position ?sq)"
    if "m \<in> set ?ms" "to_sq m = ?sq" for m
    using here [OF that] by (auto simp: onRay_def split: option.splits)
  have capture: "Move s ?sq None (Some t) \<in> set ?ms \<longleftrightarrow> color t \<noteq> color p"
    if "clearBefore position s dr dc k" "squareAt position ?sq = Some t" for t
  proof
    assume "Move s ?sq None (Some t) \<in> set ?ms"
    from here [OF this] that(2) show "color t \<noteq> color p" by (simp add: onRay_def)
  next
    assume "color t \<noteq> color p"
    moreover from that(2) have "inside (row ?sq) (col ?sq)"
      by (auto simp: squareAt_def boardAt_def split: if_splits)
    ultimately have "onRay position s (color p) dr dc k (Move s ?sq None (Some t))"
      using that by (simp add: onRay_def)
    with assms(4,5) show "Move s ?sq None (Some t) \<in> set ?ms" unfolding mem by blast
  qed
  have enemy: "color t \<noteq> color p" if "m \<in> set ?ms" "squareAt position (to_sq m) = Some t" for m t
  proof -
    from that(1) obtain dr2 dc2 k2 where "onRay position s (color p) dr2 dc2 k2 m"
      unfolding mem by blast
    with that(2) show ?thesis by (auto simp: onRay_def split: option.splits)
  qed
  from gen quiet only capture enemy show ?thesis by blast
qed

theorem sliding_moves_stop_at_first_piece_witness:
  "wf_position foolsMate
   \<and> boardAt foolsMate 4 7 = Some (Piece Black Queen)
   \<and> (-1, -1) \<in> set (slidingDeltas Queen)
   \<and> clearBefore foolsMate (Square 4 7) (-1) (-1) 3
   \<and> raySquare (Square 4 7) (-1) (-1) 2 = Square 2 5
   \<and> (\<exists>ms. pseudoLegalMovesForSquare foolsMate (Square 4 7) = Some ms
          \<and> Move (Square 4 7) (Square 2 5) None None \<in> set ms)"
proof -
  have wf: "wf_position foolsMate" by code_simp
  have queen: "boardAt foolsMate (row (Square 4 7)) (col (Square 4 7)) = Some (Piece Black Queen)"
    by code_simp
  have slider: "ptype (Piece Black Queen) = Bishop \<or> ptype (Piece Black Queen) = Rook
                \<or> ptype (Piece Black Queen) = Queen" by simp
  have dir: "(-1, -1) \<in> set (slidingDeltas (ptype (Piece Black Queen)))" by code_simp
  have clear: "clearBefore foolsMate (Square 4 7) (-1) (-1) (2 + 1)" by code_simp
  have sq: "raySquare (Square 4 7) (-1) (-1) 2 = Square 2 5" by code_simp
  from sliding_moves_stop_at_first_piece [OF wf queen slider dir, of 2] clear sq
  have "\<exists>ms. pseudoLegalMovesForSquare foolsMate (Square 4 7) = Some ms
          \<and> Move (Square 4 7) (Square 2 5) None None \<in> set ms"
    by auto
  with wf queen dir clear sq show ?thesis by simp
qed

subsection \<open>The store: frames and refinement\<close>

lemma prefix_nth: "prefix xs ys \<Longrightarrow> i < length xs \<Longrightarrow> ys ! i = xs ! i"
  by (auto simp: prefix_def nth_append)

lemma prefix_update: "prefix xs ys \<Longrightarrow> length xs \<le> a \<Longrightarrow> prefix xs (ys[a := v])"
  by (auto simp: prefix_def list_update_append)

lemma row_case:
  "(case x of RowObj cs \<Rightarrow> length cs = 8 | _ \<Rightarrow> False)
     \<longleftrightarrow> (\<exists>cs. x = RowObj cs \<and> length cs = 8)"
  by (cases x) auto

lemma wf_ref_iff:
  "wf_ref st p \<longleftrightarrow>
     (\<exists>b rs. p < length st \<and> st ! p = PositionObj b \<and> b < length st
             \<and> st ! b = BoardObj rs \<and> length rs = 8
             \<and> (\<forall>a \<in> set rs. a < length st \<and> (\<exists>cs. st ! a = RowObj cs \<and> length cs = 8)))"
  unfolding wf_ref_def list_all_iff row_case
  by (auto split: obj.splits)

lemma wf_refD:
  assumes "wf_ref st p"
  obtains b rs where "p < length st" "st ! p = PositionObj b" "b < length st"
    "st ! b = BoardObj rs" "length rs = 8"
    "\<And>a. a \<in> set rs \<Longrightarrow> a < length st \<and> (\<exists>cs. st ! a = RowObj cs \<and> length cs = 8)"
proof -
  from assms obtain b rs where "p < length st \<and> st ! p = PositionObj b \<and> b < length st
             \<and> st ! b = BoardObj rs \<and> length rs = 8
             \<and> (\<forall>a \<in> set rs. a < length st \<and> (\<exists>cs. st ! a = RowObj cs \<and> length cs = 8))"
    unfolding wf_ref_iff by blast
  then show thesis by (intro that [of b rs]) simp_all
qed

lemma wf_refI:
  assumes "p < length st" "st ! p = PositionObj b" "b < length st"
    "st ! b = BoardObj rs" "length rs = 8"
    "\<And>a. a \<in> set rs \<Longrightarrow> a < length st \<and> (\<exists>cs. st ! a = RowObj cs \<and> length cs = 8)"
  shows "wf_ref st p"
  unfolding wf_ref_iff using assms by blast

lemma boardOf_eq: "st ! p = PositionObj b \<Longrightarrow> st ! b = BoardObj rs \<Longrightarrow> boardOf st p = rs"
  by (simp add: boardOf_def)

lemma wf_ref_prefix:
  assumes "wf_ref st p" "prefix st st'"
  shows "wf_ref st' p" "boardOf st' p = boardOf st p" "positionOf st' p = positionOf st p"
proof -
  from assms(1) obtain b rs where w: "p < length st" "st ! p = PositionObj b" "b < length st"
    "st ! b = BoardObj rs" "length rs = 8"
    "\<And>a. a \<in> set rs \<Longrightarrow> a < length st \<and> (\<exists>cs. st ! a = RowObj cs \<and> length cs = 8)"
    by (rule wf_refD) blast
  have len: "length st \<le> length st'" using assms(2) by (rule prefix_length_le)
  have same: "st' ! i = st ! i" if "i < length st" for i
    using assms(2) that by (rule prefix_nth)
  show "wf_ref st' p"
  proof (rule wf_refI)
    show "p < length st'" "b < length st'" using w(1,3) len by simp_all
    show "st' ! p = PositionObj b" "st' ! b = BoardObj rs" using w same by simp_all
    show "length rs = 8" by (rule w(5))
    fix a assume "a \<in> set rs"
    with w(6) same len show "a < length st' \<and> (\<exists>cs. st' ! a = RowObj cs \<and> length cs = 8)"
      by fastforce
  qed
  have b1: "boardOf st p = rs" using w(2,4) by (rule boardOf_eq)
  have b2: "boardOf st' p = rs" using w same by (simp add: boardOf_def)
  from b1 b2 show "boardOf st' p = boardOf st p" by simp
  have "cellsOf st' a = cellsOf st a" if "a \<in> set rs" for a
    using w(6) [OF that] same by (simp add: cellsOf_def)
  then show "positionOf st' p = positionOf st p" by (simp add: positionOf_def b1 b2)
qed

lemma wf_ref_position: "wf_ref st p \<Longrightarrow> wf_position (positionOf st p)"
proof -
  assume "wf_ref st p"
  then obtain b rs where w: "st ! p = PositionObj b" "st ! b = BoardObj rs" "length rs = 8"
    "\<And>a. a \<in> set rs \<Longrightarrow> a < length st \<and> (\<exists>cs. st ! a = RowObj cs \<and> length cs = 8)"
    by (rule wf_refD) blast
  have "boardOf st p = rs" using w(1,2) by (rule boardOf_eq)
  moreover have "length (cellsOf st a) = 8" if "a \<in> set rs" for a
    using w(4) [OF that] by (auto simp: cellsOf_def)
  ultimately show ?thesis using w(3) by (simp add: wf_position_def positionOf_def list_all_iff)
qed

lemma loadCell_boardAt:
  assumes "wf_ref st p"
  shows "loadCell st p r' c' = boardAt (positionOf st p) r' c'"
proof (cases "inside r' c'")
  case False
  then show ?thesis by (simp add: loadCell_def boardAt_def)
next
  case True
  from assms obtain b rs where w: "st ! p = PositionObj b" "st ! b = BoardObj rs" "length rs = 8"
    by (rule wf_refD) blast
  have "boardOf st p = rs" using w(1,2) by (rule boardOf_eq)
  moreover from True have "nat r' < 8" by (auto simp: inside_def)
  ultimately show ?thesis using True w(3) by (simp add: loadCell_def boardAt_def positionOf_def)
qed

lemma storeCell_owned:
  assumes wf: "wf_ref st q" and dist: "distinct (boardOf st q)"
    and fresh: "\<forall>a \<in> set (boardOf st q). n \<le> a"
    and pre: "prefix st0 st" "length st0 \<le> n"
  shows "wf_ref (storeCell st q r' c' v) q"
    and "boardOf (storeCell st q r' c' v) q = boardOf st q"
    and "positionOf (storeCell st q r' c' v) q = boardSet (positionOf st q) r' c' v"
    and "prefix st0 (storeCell st q r' c' v)"
proof -
  let ?st = "storeCell st q r' c' v"
  have "wf_ref ?st q \<and> boardOf ?st q = boardOf st q
        \<and> positionOf ?st q = boardSet (positionOf st q) r' c' v \<and> prefix st0 ?st"
  proof (cases "inside r' c'")
    case False
    with wf pre show ?thesis by (simp add: storeCell_def boardSet_def)
  next
    case True
    from wf obtain b rs where w: "q < length st" "st ! q = PositionObj b" "b < length st"
      "st ! b = BoardObj rs" "length rs = 8"
      "\<And>a. a \<in> set rs \<Longrightarrow> a < length st \<and> (\<exists>cs. st ! a = RowObj cs \<and> length cs = 8)"
      by (rule wf_refD) blast
    have brd: "boardOf st q = rs" using w(2,4) by (rule boardOf_eq)
    from True have i8: "nat r' < 8" by (auto simp: inside_def)
    let ?a = "rs ! nat r'"
    have a_in: "?a \<in> set rs" using i8 w(5) by simp
    from w(6) [OF a_in] obtain cs where a: "?a < length st" "st ! ?a = RowObj cs" "length cs = 8"
      by blast
    have neq: "?a \<noteq> q" "?a \<noteq> b" using a(2) w(2,4) by auto
    let ?new = "RowObj ((cellsOf st ?a)[nat c' := v])"
    have st_eq: "?st = st[?a := ?new]" using True by (simp add: storeCell_def brd Let_def)
    have q': "?st ! q = PositionObj b" and b': "?st ! b = BoardObj rs"
      using neq w(2,4) by (simp_all add: st_eq)
    have brd': "boardOf ?st q = rs" using q' b' by (rule boardOf_eq)
    have cells: "cellsOf ?st x = (if x = ?a then (cellsOf st ?a)[nat c' := v] else cellsOf st x)"
      if "x \<in> set rs" for x
      using w(6) [OF that] a(1) by (auto simp: st_eq cellsOf_def)
    have wf': "wf_ref ?st q"
    proof (rule wf_refI)
      show "q < length ?st" "b < length ?st" using w(1,3) by (simp_all add: st_eq)
      show "?st ! q = PositionObj b" by (rule q')
      show "?st ! b = BoardObj rs" by (rule b')
      show "length rs = 8" by (rule w(5))
      fix x assume x: "x \<in> set rs"
      show "x < length ?st \<and> (\<exists>cs. ?st ! x = RowObj cs \<and> length cs = 8)"
        using w(6) [OF x] a by (cases "x = ?a") (auto simp: st_eq cellsOf_def)
    qed
    have pos: "positionOf ?st q = boardSet (positionOf st q) r' c' v"
    proof -
      have "map (cellsOf ?st) rs
              = (map (cellsOf st) rs)[nat r' := (map (cellsOf st) rs ! nat r')[nat c' := v]]"
      proof (rule nth_equalityI)
        show "length (map (cellsOf ?st) rs)
                = length ((map (cellsOf st) rs)[nat r' := (map (cellsOf st) rs ! nat r')[nat c' := v]])"
          by simp
        fix i assume "i < length (map (cellsOf ?st) rs)"
        then have i: "i < length rs" by simp
        then have mem: "rs ! i \<in> set rs" by simp
        have "rs ! i = ?a \<longleftrightarrow> i = nat r'"
          using dist i i8 w(5) by (simp add: brd nth_eq_iff_index_eq)
        with cells [OF mem] i i8 w(5)
        show "map (cellsOf ?st) rs ! i
                = (map (cellsOf st) rs)[nat r' := (map (cellsOf st) rs ! nat r')[nat c' := v]] ! i"
          by (auto simp: nth_list_update)
      qed
      with True show ?thesis by (simp add: positionOf_def brd brd' boardSet_def)
    qed
    have "n \<le> ?a" using fresh a_in by (simp add: brd)
    with pre have "prefix st0 ?st" unfolding st_eq by (intro prefix_update) simp_all
    with wf' brd' brd pos show ?thesis by simp
  qed
  then show "wf_ref ?st q" "boardOf ?st q = boardOf st q"
    "positionOf ?st q = boardSet (positionOf st q) r' c' v" "prefix st0 ?st"
    by simp_all
qed

lemma copyCell_id: "copyCell p = p"
  by (cases p) (simp_all add: copyCell_def)

lemma cloneRows_closed:
  "\<forall>a \<in> set rows. a < length st \<Longrightarrow>
   cloneRows st rows acc
     = (st @ map (\<lambda>a. RowObj (cellsOf st a)) rows,
        acc @ [length st ..< length st + length rows])"
proof (induction rows arbitrary: st acc)
  case Nil
  then show ?case by simp
next
  case (Cons a rows)
  let ?st = "st @ [RowObj (cellsOf st a)]"
  have old: "\<forall>x \<in> set rows. x < length ?st" using Cons.prems by auto
  have same: "map (\<lambda>x. RowObj (cellsOf ?st x)) rows = map (\<lambda>x. RowObj (cellsOf st x)) rows"
    using Cons.prems by (auto simp: cellsOf_def nth_append)
  have upt: "[length st ..< length st + length (a # rows)]
               = length st # [length ?st ..< length ?st + length rows]"
  proof -
    have "[length st ..< Suc (length st + length rows)]
            = length st # [Suc (length st) ..< Suc (length st + length rows)]"
      by (rule upt_conv_Cons) simp
    moreover have "length st + length (a # rows) = Suc (length st + length rows)" by simp
    moreover have "length ?st = Suc (length st)" by simp
    moreover have "length ?st + length rows = Suc (length st + length rows)" by simp
    ultimately show ?thesis by (simp only:)
  qed
  have "cloneRows st (a # rows) acc = cloneRows ?st rows (acc @ [length st])"
    by (simp add: allocate_def copyCell_id [abs_def])
  also have "\<dots> = (?st @ map (\<lambda>x. RowObj (cellsOf ?st x)) rows,
                      (acc @ [length st]) @ [length ?st ..< length ?st + length rows])"
    by (rule Cons.IH [OF old])
  also have "\<dots> = (st @ map (\<lambda>a. RowObj (cellsOf st a)) (a # rows),
                      acc @ [length st ..< length st + length (a # rows)])"
    unfolding same upt by simp
  finally show ?case .
qed

lemma clonePositionS_spec:
  assumes "wf_ref st p" and "clonePositionS st p = (st1, next)"
  shows "prefix st st1" "length st \<le> next" "wf_ref st1 next"
    "distinct (boardOf st1 next)" "\<forall>a \<in> set (boardOf st1 next). length st \<le> a"
    "positionOf st1 next = clonePosition (positionOf st p)"
proof -
  from assms(1) obtain b rs where w: "st ! p = PositionObj b" "st ! b = BoardObj rs"
    "length rs = 8"
    "\<And>a. a \<in> set rs \<Longrightarrow> a < length st \<and> (\<exists>cs. st ! a = RowObj cs \<and> length cs = 8)"
    by (rule wf_refD) blast
  have brd: "boardOf st p = rs" using w(1,2) by (rule boardOf_eq)
  let ?n = "length st"
  let ?rows = "map (\<lambda>a. RowObj (cellsOf st a)) rs"
  let ?new = "[?n ..< ?n + 8]"
  have "\<forall>a \<in> set rs. a < length st" using w(4) by blast
  from cloneRows_closed [OF this, of "[]"]
  have "clonePositionS st p = (st @ ?rows @ [BoardObj ?new, PositionObj (?n + 8)], ?n + 9)"
    by (simp add: clonePositionS_def brd allocate_def w(3))
  with assms(2) have st1: "st1 = st @ ?rows @ [BoardObj ?new, PositionObj (?n + 8)]"
    and nx: "next = ?n + 9" by simp_all
  show "prefix st st1" by (simp add: st1)
  show "length st \<le> next" by (simp add: nx)
  have len1: "length st1 = ?n + 10" by (simp add: st1 w(3))
  have at_next: "st1 ! next = PositionObj (?n + 8)"
    by (simp add: st1 nx nth_append w(3))
  have at_board: "st1 ! (?n + 8) = BoardObj ?new"
    by (simp add: st1 nth_append w(3))
  have at_row: "st1 ! (?n + i) = RowObj (cellsOf st (rs ! i))" if "i < 8" for i
    using that by (simp add: st1 nth_append w(3))
  have brd1: "boardOf st1 next = ?new" using at_next at_board by (rule boardOf_eq)
  show "distinct (boardOf st1 next)" by (simp add: brd1)
  show "\<forall>a \<in> set (boardOf st1 next). length st \<le> a" by (simp add: brd1)
  have rowlen: "length (cellsOf st (rs ! i)) = 8" if "i < 8" for i
  proof -
    from that w(3) have "rs ! i \<in> set rs" by simp
    from w(4) [OF this] show ?thesis by (auto simp: cellsOf_def)
  qed
  show "wf_ref st1 next"
  proof (rule wf_refI)
    show "next < length st1" "?n + 8 < length st1" by (simp_all add: nx len1)
    show "st1 ! next = PositionObj (?n + 8)" by (rule at_next)
    show "st1 ! (?n + 8) = BoardObj ?new" by (rule at_board)
    show "length ?new = 8" by simp
    fix a assume "a \<in> set ?new"
    then obtain i where i: "i < 8" "a = ?n + i"
      by (auto intro: that [of "a - ?n"])
    with at_row [OF i(1)] rowlen [OF i(1)] len1
    show "a < length st1 \<and> (\<exists>cs. st1 ! a = RowObj cs \<and> length cs = 8)" by simp
  qed
  have "map (cellsOf st1) ?new = map (cellsOf st) rs"
  proof (rule nth_equalityI)
    show "length (map (cellsOf st1) ?new) = length (map (cellsOf st) rs)" by (simp add: w(3))
    fix i assume "i < length (map (cellsOf st1) ?new)"
    then have i: "i < 8" by simp
    with at_row [OF i] w(3) show "map (cellsOf st1) ?new ! i = map (cellsOf st) rs ! i"
      by (simp add: cellsOf_def)
  qed
  then show "positionOf st1 next = clonePosition (positionOf st p)"
    by (simp add: positionOf_def brd1 brd clonePosition_id)
qed

lemma applyMoveS_spec:
  assumes "wf_ref st p" and "applyMoveS st p mv = (st', next)"
  shows "prefix st st'" "length st \<le> next" "wf_ref st' next"
    "positionOf st' next = applyMove (positionOf st p) mv"
proof -
  obtain st0 nx where cl: "clonePositionS st p = (st0, nx)" by (cases "clonePositionS st p")
  note c = clonePositionS_spec [OF assms(1) cl]
  let ?fr = "row (from_sq mv)" and ?fc = "col (from_sq mv)"
  let ?tr = "row (to_sq mv)" and ?tc = "col (to_sq mv)"
  let ?piece = "loadCell st0 nx ?fr ?fc"
  let ?st1 = "storeCell st0 nx ?fr ?fc None"
  let ?placed = "case ?piece of None \<Rightarrow> ?piece
     | Some q \<Rightarrow> (case promotion mv of None \<Rightarrow> ?piece
         | Some m \<Rightarrow> if ptype q = Pawn then Some (Piece (color q) (promoType m)) else ?piece)"
  have "applyMoveS st p mv = (storeCell ?st1 nx ?tr ?tc ?placed, nx)"
    by (simp add: applyMoveS_def cl Let_def)
  from trans [OF assms(2) [symmetric] this]
  have res: "st' = storeCell ?st1 nx ?tr ?tc ?placed" "next = nx"
    by (simp_all only: prod.inject)
  note s1 = storeCell_owned [OF c(3) c(4) c(5) c(1) order_refl, of ?fr ?fc None]
  have d1: "distinct (boardOf ?st1 nx)" "\<forall>a \<in> set (boardOf ?st1 nx). length st \<le> a"
    using c(4,5) s1(2) by simp_all
  note s2 = storeCell_owned [OF s1(1) d1 s1(4) order_refl, of ?tr ?tc ?placed]
  show "prefix st st'" using s2(4) by (simp add: res)
  show "length st \<le> next" using c(2) by (simp add: res)
  show "wf_ref st' next" using s2(1) by (simp add: res)
  have pe: "?piece = boardAt (clonePosition (positionOf st p)) ?fr ?fc"
    using loadCell_boardAt [OF c(3)] c(6) by simp
  have "positionOf st' next
          = boardSet (boardSet (clonePosition (positionOf st p)) ?fr ?fc None) ?tr ?tc ?placed"
    by (simp only: res s2(3) s1(3) c(6))
  then show "positionOf st' next = applyMove (positionOf st p) mv"
    unfolding pe applyMove_def Let_def .
qed

lemma applyMoveS_frame:
  assumes "wf_ref st p" and "applyMoveS st p mv = (st', next)"
  shows "wf_ref st' p" "positionOf st' p = positionOf st p"
  using wf_ref_prefix [OF assms(1) applyMoveS_spec(1) [OF assms]] by simp_all

lemma keepSafeS_spec:
  assumes "wf_ref st p"
  shows "\<exists>st'. keepSafeS st p turn pseudo moves
            = Some (st', moves @ filter (\<lambda>mv. wouldLeaveKingInCheck (positionOf st p) mv turn
                                               = Some False) pseudo)
          \<and> prefix st st'"
  using assms
proof (induction pseudo arbitrary: st moves)
  case Nil
  then show ?case by simp
next
  case (Cons mv pseudo)
  obtain st1 nx where ap: "applyMoveS st p mv = (st1, nx)" by (cases "applyMoveS st p mv")
  note a = applyMoveS_spec [OF Cons.prems ap] and f = applyMoveS_frame [OF Cons.prems ap]
  obtain chk where chk: "wouldLeaveKingInCheck (positionOf st p) mv turn = Some chk"
    using inCheck_total by (auto simp: wouldLeaveKingInCheck_def)
  then have w: "wouldLeaveKingInCheckS st p mv turn = Some (st1, chk)"
    by (simp add: wouldLeaveKingInCheckS_def ap a(4) wouldLeaveKingInCheck_def)
  from Cons.IH [OF f(1), of "if \<not> chk then moves @ [mv] else moves"]
  obtain st2 where
    "keepSafeS st1 p turn pseudo (if \<not> chk then moves @ [mv] else moves)
       = Some (st2, (if \<not> chk then moves @ [mv] else moves)
                    @ filter (\<lambda>mv. wouldLeaveKingInCheck (positionOf st1 p) mv turn = Some False)
                        pseudo)"
    and "prefix st1 st2" by blast
  with w chk a(1) f(2) show ?case
    by (auto intro: prefix_order.trans)
qed

lemma legalLoopS_spec:
  assumes "wf_ref st p"
  shows "\<exists>st' ms. legalLoopS st p turn sqs moves = Some (st', ms)
          \<and> legalLoop (positionOf st p) turn sqs moves = Some ms
          \<and> prefix st st'"
  using assms
proof (induction sqs arbitrary: st moves)
  case Nil
  then show ?case by simp
next
  case (Cons s rest)
  let ?pos = "positionOf st p"
  show ?case
  proof (cases "\<exists>q. boardAt ?pos (row s) (col s) = Some q \<and> color q = turn")
    case False
    with Cons.IH [OF Cons.prems, of moves] show ?thesis
      by (auto split: option.splits)
  next
    case True
    then obtain q where q: "boardAt ?pos (row s) (col s) = Some q" "color q = turn" by blast
    obtain ps where ps: "pseudoLegalMovesForSquare ?pos s = Some ps"
      using pseudo_total by blast
    let ?kept = "moves @ filter (\<lambda>mv. wouldLeaveKingInCheck ?pos mv turn = Some False) ps"
    from keepSafeS_spec [OF Cons.prems, of turn ps moves]
    obtain st1 where k: "keepSafeS st p turn ps moves = Some (st1, ?kept)" "prefix st st1"
      by blast
    note f = wf_ref_prefix [OF Cons.prems k(2)]
    from Cons.IH [OF f(1), of ?kept]
    obtain st2 ms where l: "legalLoopS st1 p turn rest ?kept = Some (st2, ms)"
      "legalLoop (positionOf st1 p) turn rest ?kept = Some ms" "prefix st1 st2"
      by blast
    from q ps k l f(3) show ?thesis
      by (auto simp: keepSafe_closed intro: prefix_order.trans)
  qed
qed

text \<open>
  Claim C10. Let a reference denote a position of the data model in a store, and let a move
  have its squares on the board. Then \<open>applyMove\<close> and \<open>makeMove\<close> return a
  reference to a new object, every object of the store before the call is the same after it,
  so the argument position has every square unchanged, and the new position is the one the
  functional \<open>applyMove\<close> computes. \<open>generateLegalMoves\<close> returns, leaves every
  object of the store before the call the same, hence the argument position unchanged, and
  yields the list the functional \<open>generateLegalMoves\<close> computes.
\<close>

theorem argument_position_unchanged:
  assumes "wf_ref st p"
    and "inside (row (from_sq mv)) (col (from_sq mv))"
    and "inside (row (to_sq mv)) (col (to_sq mv))"
  shows "(\<exists>st' nx. applyMoveS st p mv = (st', nx)
            \<and> prefix st st' \<and> length st \<le> nx \<and> wf_ref st' nx
            \<and> positionOf st' p = positionOf st p
            \<and> positionOf st' nx = applyMove (positionOf st p) mv)
       \<and> (\<exists>st' nx san. makeMoveS st p mv = (st', nx, san)
            \<and> prefix st st' \<and> length st \<le> nx \<and> wf_ref st' nx
            \<and> positionOf st' p = positionOf st p
            \<and> (positionOf st' nx, san) = makeMove (positionOf st p) mv)
       \<and> (\<exists>st' ms. generateLegalMovesS st p turn = Some (st', ms)
            \<and> prefix st st'
            \<and> positionOf st' p = positionOf st p
            \<and> generateLegalMoves (positionOf st p) turn = Some ms)"
proof -
  obtain st1 nx where ap: "applyMoveS st p mv = (st1, nx)" by (cases "applyMoveS st p mv")
  note a = applyMoveS_spec [OF assms(1) ap] and f = applyMoveS_frame [OF assms(1) ap]
  have apply_part: "\<exists>st' nx. applyMoveS st p mv = (st', nx)
            \<and> prefix st st' \<and> length st \<le> nx \<and> wf_ref st' nx
            \<and> positionOf st' p = positionOf st p
            \<and> positionOf st' nx = applyMove (positionOf st p) mv"
    using ap a f(2) by blast
  have "makeMoveS st p mv = (st1, nx, moveToSANLike (positionOf st p) mv)"
    by (simp add: makeMoveS_def ap f(2))
  moreover have "(positionOf st1 nx, moveToSANLike (positionOf st p) mv)
                   = makeMove (positionOf st p) mv"
    by (simp add: makeMove_def a(4))
  ultimately have make_part: "\<exists>st' nx san. makeMoveS st p mv = (st', nx, san)
            \<and> prefix st st' \<and> length st \<le> nx \<and> wf_ref st' nx
            \<and> positionOf st' p = positionOf st p
            \<and> (positionOf st' nx, san) = makeMove (positionOf st p) mv"
    using a f(2) by blast
  from legalLoopS_spec [OF assms(1), of turn allSquares "[]"]
  obtain st2 ms where g: "generateLegalMovesS st p turn = Some (st2, ms)"
    "generateLegalMoves (positionOf st p) turn = Some ms" "prefix st st2"
    by (auto simp: generateLegalMovesS_def generateLegalMoves_def)
  from wf_ref_prefix(3) [OF assms(1) g(3)] g
  have gen_part: "\<exists>st' ms. generateLegalMovesS st p turn = Some (st', ms)
            \<and> prefix st st'
            \<and> positionOf st' p = positionOf st p
            \<and> generateLegalMoves (positionOf st p) turn = Some ms"
    by blast
  from apply_part make_part gen_part show ?thesis by blast
qed

theorem argument_position_unchanged_witness:
  "wf_ref initialStore 9 \<and> inside 6 4 \<and> inside 4 4
   \<and> positionOf initialStore 9 = createInitialPosition
   \<and> snd (applyMoveS initialStore 9 (Move (Square 6 4) (Square 4 4) None None)) = 19
   \<and> boardAt (positionOf (fst (applyMoveS initialStore 9 (Move (Square 6 4) (Square 4 4) None None))) 19)
        4 4 = Some (Piece White Pawn)
   \<and> positionOf (fst (applyMoveS initialStore 9 (Move (Square 6 4) (Square 4 4) None None))) 9
       = createInitialPosition"
proof -
  let ?mv = "Move (Square 6 4) (Square 4 4) None None"
  have wf: "wf_ref initialStore 9" by code_simp
  have i1: "inside (row (from_sq ?mv)) (col (from_sq ?mv))" by code_simp
  have i2: "inside (row (to_sq ?mv)) (col (to_sq ?mv))" by code_simp
  have init: "positionOf initialStore 9 = createInitialPosition" by code_simp
  have nx: "snd (applyMoveS initialStore 9 ?mv) = 19" by code_simp
  have pawn: "boardAt (positionOf (fst (applyMoveS initialStore 9 ?mv)) 19) 4 4
                = Some (Piece White Pawn)" by code_simp
  from argument_position_unchanged [OF wf i1 i2, of White]
  have "positionOf (fst (applyMoveS initialStore 9 ?mv)) 9 = positionOf initialStore 9"
    by auto
  with wf i1 i2 init nx pawn show ?thesis by simp
qed

end
